theory Spec2Isabelle
  imports Complex_Main
begin

section \<open>Data model (types.ts)\<close>

datatype TriggerType = Time | Location

datatype LocationTrigger = OnEnter | OnLeave

text \<open>
  The three members of the enum, and \<open>OtherUnit\<close> for any other string that reaches
  the scheduler at run time in the \<open>intervalUnit\<close> field (reminders are read back from
  storage and from imported files without validation); it is what the \<open>default\<close> branch
  of \<open>getIntervalMilliseconds\<close> receives.
\<close>

datatype IntervalUnit = Minutes | Hours | Days | OtherUnit string

datatype TriggerTimeType = Interval | Exact

text \<open>
  Numbers of the scheduler. A number of the program is a double. The scheduler computes
  with millisecond counts and with the interval of a reminder, a whole number in the
  data model: \<open>jsnum\<close> holds the doubles that are whole numbers, the two infinities
  and NaN. Sums, differences and products of whole numbers are rounded to the nearest
  double (\<open>toDouble\<close> below), so they stay in this type. \<open>Num n\<close> is a value of
  the program when \<open>n\<close> is a double, that is when \<open>toDouble n = Num n\<close>; every
  \<open>n\<close> of magnitude up to \<open>2^53\<close> is. The sign of zero is not kept: none of
  the operations below tells \<open>-0\<close> from \<open>+0\<close>.
\<close>

datatype jsnum = Num int | PosInf | NegInf | NaN

record GeoLocation =
  address :: string
  lat :: real
  lng :: real
  radius :: real
  triggerOn :: LocationTrigger

text \<open>An optional field (\<open>f?: T\<close>) is an \<open>option\<close>; \<open>None\<close> is \<open>undefined\<close>.\<close>

record Reminder =
  id_r :: string
  createdAt :: int
  text_r :: string
  triggerType :: TriggerType
  triggerTimeType :: "TriggerTimeType option"
  timeOfDay :: "string option"
  isRecurring :: "bool option"
  interval :: "jsnum option"
  intervalUnit :: "IntervalUnit option"
  location :: "GeoLocation option"
  vibrate :: bool
  sound :: string

section \<open>JavaScript values and built-ins used by the scheduler\<close>

subsection \<open>Number arithmetic and comparison\<close>

text \<open>The number of binary digits of a positive integer; 0 for the others.\<close>

function bitLength :: "int \<Rightarrow> nat" where
  "bitLength n = (if n \<le> 0 then 0 else Suc (bitLength (n div 2)))"
  by auto
termination by (relation "measure nat") auto

declare bitLength.simps [simp del]

text \<open>
  The double nearest to an integer, as the arithmetic of the language rounds: an
  integer of at most 53 binary digits is a double; a longer one keeps its 53 leading
  digits, rounded to nearest with ties to the even one; a result of \<open>2^1024\<close> or
  more is an infinity.
\<close>

definition toDouble :: "int \<Rightarrow> jsnum" where
  "toDouble x =
     (let m = \<bar>x\<bar>; bits = bitLength m
      in if bits \<le> 53 then Num x
         else (let u = 2 ^ (bits - 53);
                   q = m div u;
                   r = m mod u;
                   q' = (if 2 * r < u then q
                         else if u < 2 * r then q + 1
                         else if even q then q else q + 1);
                   v = q' * u
               in if 2 ^ 1024 \<le> v then (if 0 < x then PosInf else NegInf)
                  else Num (if 0 < x then v else - v)))"

text \<open>\<open>a * b\<close>: an infinity times zero is NaN.\<close>

fun js_mul :: "jsnum \<Rightarrow> jsnum \<Rightarrow> jsnum" where
  "js_mul (Num a) (Num b) = toDouble (a * b)"
| "js_mul NaN _ = NaN"
| "js_mul _ NaN = NaN"
| "js_mul (Num a) PosInf = (if a = 0 then NaN else if 0 < a then PosInf else NegInf)"
| "js_mul (Num a) NegInf = (if a = 0 then NaN else if 0 < a then NegInf else PosInf)"
| "js_mul PosInf (Num b) = (if b = 0 then NaN else if 0 < b then PosInf else NegInf)"
| "js_mul NegInf (Num b) = (if b = 0 then NaN else if 0 < b then NegInf else PosInf)"
| "js_mul PosInf PosInf = PosInf"
| "js_mul PosInf NegInf = NegInf"
| "js_mul NegInf PosInf = NegInf"
| "js_mul NegInf NegInf = PosInf"

text \<open>\<open>a + b\<close>: the sum of the two opposite infinities is NaN.\<close>

fun js_add :: "jsnum \<Rightarrow> jsnum \<Rightarrow> jsnum" where
  "js_add (Num a) (Num b) = toDouble (a + b)"
| "js_add NaN _ = NaN"
| "js_add _ NaN = NaN"
| "js_add PosInf NegInf = NaN"
| "js_add NegInf PosInf = NaN"
| "js_add PosInf _ = PosInf"
| "js_add NegInf _ = NegInf"
| "js_add (Num a) PosInf = PosInf"
| "js_add (Num a) NegInf = NegInf"

text \<open>\<open>a - b\<close>: the difference of two equal infinities is NaN.\<close>

fun js_sub :: "jsnum \<Rightarrow> jsnum \<Rightarrow> jsnum" where
  "js_sub (Num a) (Num b) = toDouble (a - b)"
| "js_sub NaN _ = NaN"
| "js_sub _ NaN = NaN"
| "js_sub PosInf PosInf = NaN"
| "js_sub NegInf NegInf = NaN"
| "js_sub PosInf _ = PosInf"
| "js_sub NegInf _ = NegInf"
| "js_sub (Num a) PosInf = NegInf"
| "js_sub (Num a) NegInf = PosInf"

text \<open>\<open>a <= b\<close> and \<open>a > b\<close>. Every comparison with NaN is false.\<close>

fun js_le :: "jsnum \<Rightarrow> jsnum \<Rightarrow> bool" where
  "js_le (Num a) (Num b) = (a \<le> b)"
| "js_le NaN _ = False"
| "js_le _ NaN = False"
| "js_le NegInf _ = True"
| "js_le _ PosInf = True"
| "js_le PosInf _ = False"
| "js_le (Num a) NegInf = False"

fun js_gt :: "jsnum \<Rightarrow> jsnum \<Rightarrow> bool" where
  "js_gt (Num a) (Num b) = (a > b)"
| "js_gt NaN _ = False"
| "js_gt _ NaN = False"
| "js_gt PosInf PosInf = False"
| "js_gt PosInf _ = True"
| "js_gt NegInf _ = False"
| "js_gt (Num a) NegInf = True"
| "js_gt (Num a) PosInf = False"

text \<open>Truthiness: \<open>undefined\<close>, \<open>0\<close>, \<open>NaN\<close> and the empty string are falsy.\<close>

fun truthy_num :: "jsnum option \<Rightarrow> bool" where
  "truthy_num None = False"
| "truthy_num (Some NaN) = False"
| "truthy_num (Some (Num n)) = (n \<noteq> 0)"
| "truthy_num (Some PosInf) = True"
| "truthy_num (Some NegInf) = True"

fun truthy_string :: "string option \<Rightarrow> bool" where
  "truthy_string None = False"
| "truthy_string (Some s) = (s \<noteq> [])"

text \<open>
  A unit is a string at run time: the three enum members are non-empty strings, and
  \<open>OtherUnit s\<close> is truthy unless \<open>s\<close> is empty.
\<close>

fun truthy_unit :: "IntervalUnit option \<Rightarrow> bool" where
  "truthy_unit None = False"
| "truthy_unit (Some (OtherUnit s)) = (s \<noteq> [])"
| "truthy_unit (Some _) = True"

text \<open>\<open>x || d\<close>: the left operand when it is truthy, the right one otherwise.\<close>

definition or_num :: "jsnum option \<Rightarrow> jsnum \<Rightarrow> jsnum" where
  "or_num x d = (if truthy_num x then the x else d)"

definition or_unit :: "IntervalUnit option \<Rightarrow> IntervalUnit \<Rightarrow> IntervalUnit" where
  "or_unit x d = (if truthy_unit x then the x else d)"

subsection \<open>\<open>String.prototype.split\<close> and \<open>Number\<close>\<close>

text \<open>
  A string is a list of characters with codes below 256.
  \<open>s.split(sep)\<close> for a one-character separator; the empty string gives \<open>[""]\<close>.
\<close>

fun split :: "char \<Rightarrow> string \<Rightarrow> string list" where
  "split sep [] = [[]]"
| "split sep (c # cs) =
     (if c = sep then [] # split sep cs
      else (case split sep cs of
              [] \<Rightarrow> [[c]]
            | w # ws \<Rightarrow> (c # w) # ws))"

text \<open>
  \<open>Number(s)\<close> can be any double, a fraction included: a finite one is given by its
  rational value. As above, the sign of zero is not kept.
\<close>

datatype jsfloat = Finite rat | PlusInfinity | MinusInfinity | NotANumber

text \<open>The power of two with an integer exponent, and the same for ten.\<close>

definition pow2 :: "int \<Rightarrow> rat" where
  "pow2 e = (if 0 \<le> e then 2 ^ nat e else 1 / 2 ^ nat (- e))"

definition pow10 :: "int \<Rightarrow> rat" where
  "pow10 e = (if 0 \<le> e then 10 ^ nat e else 1 / 10 ^ nat (- e))"

text \<open>For a positive \<open>x\<close>, the exponent \<open>e\<close> with \<open>2^e \<le> x < 2^(e+1)\<close>.\<close>

definition floorLog2 :: "rat \<Rightarrow> int" where
  "floorLog2 x =
     (let (p, q) = quotient_of x;
          e = int (bitLength p) - int (bitLength q)
      in if pow2 e \<le> x then e else e - 1)"

definition roundHalfEven :: "rat \<Rightarrow> int" where
  "roundHalfEven x =
     (let f = \<lfloor>x\<rfloor>; d = x - of_int f
      in if d < 1 / 2 then f
         else if 1 / 2 < d then f + 1
         else if even f then f else f + 1)"

text \<open>
  The double nearest to a rational number (ties to even), which is the value of a
  numeric literal: 53 significant binary digits, exponents from -1022 (below it the
  doubles are evenly spaced, down to \<open>2^-1074\<close>), and an infinity from \<open>2^1024\<close> on.
\<close>

definition nearestDouble :: "rat \<Rightarrow> jsfloat" where
  "nearestDouble x =
     (if x = 0 then Finite 0
      else (let m = \<bar>x\<bar>;
                e = max (floorLog2 m) (- 1022);
                u = pow2 (e - 52);
                v = of_int (roundHalfEven (m / u)) * u
            in if pow2 1024 \<le> v then (if 0 < x then PlusInfinity else MinusInfinity)
               else Finite (if 0 < x then v else - v)))"

fun negate :: "jsfloat \<Rightarrow> jsfloat" where
  "negate (Finite x) = Finite (- x)"
| "negate PlusInfinity = MinusInfinity"
| "negate MinusInfinity = PlusInfinity"
| "negate NotANumber = NotANumber"

text \<open>
  The white space that \<open>Number\<close> drops around a literal, among the characters below
  256: tab, line feed, vertical tab, form feed, carriage return, space and no-break
  space.
\<close>

definition isWhiteSpace :: "char \<Rightarrow> bool" where
  "isWhiteSpace c =
     (c \<in> set [CHR '' '', CHR 0x09, CHR 0x0A, CHR 0x0B, CHR 0x0C, CHR 0x0D, CHR 0xA0])"

definition trim :: "string \<Rightarrow> string" where
  "trim s = rev (dropWhile isWhiteSpace (rev (dropWhile isWhiteSpace s)))"

text \<open>The value of a digit: \<open>0\<close> to \<open>9\<close>, and \<open>a\<close> to \<open>f\<close> in either case.\<close>

definition digitValue :: "char \<Rightarrow> int option" where
  "digitValue c =
     (let code = (of_char c :: nat)
      in if 48 \<le> code \<and> code \<le> 57 then Some (int code - 48)
         else if 97 \<le> code \<and> code \<le> 102 then Some (int code - 87)
         else if 65 \<le> code \<and> code \<le> 70 then Some (int code - 55)
         else None)"

definition isDecimalDigit :: "char \<Rightarrow> bool" where
  "isDecimalDigit c = (let code = (of_char c :: nat) in 48 \<le> code \<and> code \<le> 57)"

text \<open>
  The value of a string of digits in a radix, most significant digit first; \<open>None\<close>
  when a character is no digit of the radix.
\<close>

fun digitsValue :: "int \<Rightarrow> int \<Rightarrow> string \<Rightarrow> int option" where
  "digitsValue radix acc [] = Some acc"
| "digitsValue radix acc (c # cs) =
     (case digitValue c of
        None \<Rightarrow> None
      | Some d \<Rightarrow> (if d < radix then digitsValue radix (radix * acc + d) cs else None))"

text \<open>
  The exponent part of a decimal literal: nothing, or \<open>e\<close> or \<open>E\<close>, an optional
  sign and at least one digit. \<open>None\<close> is a malformed one.
\<close>

definition unsignedInteger :: "string \<Rightarrow> int option" where
  "unsignedInteger ds = (if ds = [] then None else digitsValue 10 0 ds)"

definition signedInteger :: "string \<Rightarrow> int option" where
  "signedInteger s =
     (case s of
        [] \<Rightarrow> None
      | c # cs \<Rightarrow>
          (if c = CHR ''+'' then unsignedInteger cs
           else if c = CHR ''-'' then map_option uminus (unsignedInteger cs)
           else unsignedInteger (c # cs)))"

definition exponentPart :: "string \<Rightarrow> int option" where
  "exponentPart s =
     (case s of
        [] \<Rightarrow> Some 0
      | c # cs \<Rightarrow> (if c = CHR ''e'' \<or> c = CHR ''E'' then signedInteger cs else None))"

text \<open>
  An unsigned decimal literal: \<open>Infinity\<close>, or digits with an optional fraction and
  an optional exponent part, with at least one digit before or after the point.
\<close>

definition strUnsignedDecimalLiteral :: "string \<Rightarrow> jsfloat" where
  "strUnsignedDecimalLiteral s =
     (if s = ''Infinity'' then PlusInfinity
      else (let integerDigits = takeWhile isDecimalDigit s;
                rest = dropWhile isDecimalDigit s;
                hasPoint = (rest \<noteq> [] \<and> hd rest = CHR ''.'');
                fractionDigits = (if hasPoint then takeWhile isDecimalDigit (tl rest) else []);
                afterMantissa = (if hasPoint then dropWhile isDecimalDigit (tl rest) else rest)
            in if integerDigits = [] \<and> fractionDigits = [] then NotANumber
               else (case exponentPart afterMantissa of
                       None \<Rightarrow> NotANumber
                     | Some e \<Rightarrow>
                         (case digitsValue 10 0 (integerDigits @ fractionDigits) of
                            None \<Rightarrow> NotANumber
                          | Some mantissa \<Rightarrow>
                              nearestDouble
                                (of_int mantissa * pow10 (e - int (length fractionDigits)))))))"

text \<open>
  A binary, octal or hexadecimal integer literal (\<open>0b\<close>, \<open>0o\<close>, \<open>0x\<close>, in either
  case, and at least one digit); \<open>None\<close> when the string has no such prefix.
\<close>

definition radixDigits :: "int \<Rightarrow> string \<Rightarrow> jsfloat" where
  "radixDigits radix ds =
     (if ds = [] then NotANumber
      else (case digitsValue radix 0 ds of
              None \<Rightarrow> NotANumber
            | Some n \<Rightarrow> nearestDouble (of_int n)))"

definition nonDecimalIntegerLiteral :: "string \<Rightarrow> jsfloat option" where
  "nonDecimalIntegerLiteral s =
     (case s of
        c0 # c1 # ds \<Rightarrow>
          (if c0 \<noteq> CHR ''0'' then None
           else if c1 = CHR ''b'' \<or> c1 = CHR ''B'' then Some (radixDigits 2 ds)
           else if c1 = CHR ''o'' \<or> c1 = CHR ''O'' then Some (radixDigits 8 ds)
           else if c1 = CHR ''x'' \<or> c1 = CHR ''X'' then Some (radixDigits 16 ds)
           else None)
      | _ \<Rightarrow> None)"

text \<open>
  \<open>Number(s)\<close> for a string: surrounding white space is dropped; the empty string is
  \<open>0\<close>; a literal with a radix prefix takes no sign; a decimal literal takes an
  optional sign; any other string, such as \<open>"noon"\<close>, is NaN. The value of a literal
  is its exact value rounded to the nearest double, as the engines compute it (for a
  literal of more than 20 significant digits the language standard also admits the
  value of its first 20 digits).
\<close>

definition Number_js :: "string \<Rightarrow> jsfloat" where
  "Number_js s =
     (let t = trim s
      in case t of
           [] \<Rightarrow> Finite 0
         | c # cs \<Rightarrow>
             (case nonDecimalIntegerLiteral t of
                Some v \<Rightarrow> v
              | None \<Rightarrow>
                  (if c = CHR ''+'' then strUnsignedDecimalLiteral cs
                   else if c = CHR ''-'' then negate (strUnsignedDecimalLiteral cs)
                   else strUnsignedDecimalLiteral t)))"

text \<open>
  \<open>const [hours, minutes] = xs\<close>: a missing element is \<open>undefined\<close>, which
  \<open>ToNumber\<close> turns into NaN when \<open>setHours\<close> receives it.
\<close>

definition element_or_undefined :: "jsfloat list \<Rightarrow> nat \<Rightarrow> jsfloat" where
  "element_or_undefined xs i = (if i < length xs then xs ! i else NotANumber)"

subsection \<open>\<open>Date\<close>\<close>

text \<open>
  A time value is a whole number of milliseconds since the epoch, of magnitude at most
  8.64e15, or NaN. The local time zone of the environment is the function
  \<open>LocalTZA\<close> of the language standard: the offset of local time from UTC, in
  milliseconds, at a UTC instant (\<open>isUTC = True\<close>) or at a local time
  (\<open>isUTC = False\<close>). An offset is a whole number of milliseconds of magnitude below
  one day, so the sum of a time value and an offset is below \<open>2^53\<close> and the program
  computes it exactly.
\<close>

type_synonym timezone = "int \<Rightarrow> bool \<Rightarrow> int"

definition msPerMinute :: int where "msPerMinute = 60000"
definition msPerHour :: int where "msPerHour = 3600000"
definition msPerDay :: int where "msPerDay = 86400000"

definition LocalTime :: "timezone \<Rightarrow> int \<Rightarrow> int" where
  "LocalTime tz t = t + tz t True"

definition UTC :: "timezone \<Rightarrow> int \<Rightarrow> int" where
  "UTC tz t = t - tz t False"

definition Day :: "int \<Rightarrow> int" where
  "Day t = t div msPerDay"

definition TimeWithinDay :: "int \<Rightarrow> int" where
  "TimeWithinDay t = t mod msPerDay"

text \<open>
  \<open>TimeClip\<close>: a number that is not finite or lies outside the range of \<open>Date\<close> is
  no time value.
\<close>

fun TimeClip :: "jsnum \<Rightarrow> jsnum" where
  "TimeClip (Num t) = (if 8640000000000000 < \<bar>t\<bar> then NaN else Num t)"
| "TimeClip PosInf = NaN"
| "TimeClip NegInf = NaN"
| "TimeClip NaN = NaN"

text \<open>The integer part of a finite number; \<open>None\<close> for an infinity and for NaN.\<close>

fun finiteInteger :: "jsfloat \<Rightarrow> int option" where
  "finiteInteger (Finite x) = Some (if 0 \<le> x then \<lfloor>x\<rfloor> else \<lceil>x\<rceil>)"
| "finiteInteger PlusInfinity = None"
| "finiteInteger MinusInfinity = None"
| "finiteInteger NotANumber = None"

text \<open>
  \<open>MakeTime\<close>: NaN unless the four arguments are finite; otherwise their integer
  parts are combined with the arithmetic of doubles.
\<close>

definition MakeTime :: "jsfloat \<Rightarrow> jsfloat \<Rightarrow> jsfloat \<Rightarrow> jsfloat \<Rightarrow> jsnum" where
  "MakeTime hour minute sec ms =
     (case (finiteInteger hour, finiteInteger minute, finiteInteger sec, finiteInteger ms) of
        (Some h, Some m, Some s, Some milli) \<Rightarrow>
          js_add (js_add (js_add (js_mul (Num h) (Num msPerHour))
                                 (js_mul (Num m) (Num msPerMinute)))
                         (js_mul (Num s) (Num 1000)))
                 (Num milli)
      | _ \<Rightarrow> NaN)"

text \<open>\<open>MakeDate\<close>: NaN unless the time and the result are finite.\<close>

fun MakeDate :: "int \<Rightarrow> jsnum \<Rightarrow> jsnum" where
  "MakeDate day (Num time) =
     (case js_add (js_mul (Num day) (Num msPerDay)) (Num time) of
        Num tv \<Rightarrow> Num tv
      | _ \<Rightarrow> NaN)"
| "MakeDate day PosInf = NaN"
| "MakeDate day NegInf = NaN"
| "MakeDate day NaN = NaN"

text \<open>
  \<open>d.setHours(hour, min, sec, ms)\<close> on a date whose time value is \<open>t\<close>: the new time
  value. The fields are set in local time and the result is converted back to UTC and
  clipped to the range of \<open>Date\<close>. (The subtraction of the offset is written exactly:
  a result within the range is below \<open>2^53\<close>, and one beyond it is clipped to NaN
  whether rounded or not.)
\<close>

fun setHours ::
  "timezone \<Rightarrow> jsnum \<Rightarrow> jsfloat \<Rightarrow> jsfloat \<Rightarrow> jsfloat \<Rightarrow> jsfloat \<Rightarrow> jsnum" where
  "setHours tz (Num t) hour minute sec milli =
     (case MakeDate (Day (LocalTime tz t)) (MakeTime hour minute sec milli) of
        Num date \<Rightarrow> TimeClip (Num (UTC tz date))
      | _ \<Rightarrow> NaN)"
| "setHours tz PosInf hour minute sec milli = NaN"
| "setHours tz NegInf hour minute sec milli = NaN"
| "setHours tz NaN hour minute sec milli = NaN"

text \<open>
  \<open>d.setDate(d.getDate() + 1)\<close>. \<open>getDate\<close> is the day of the month of the local
  time, and \<open>setDate\<close> builds the local date from the year, the month and the new day
  of the month with \<open>MakeDay\<close>, which counts days arithmetically (a day number past
  the end of the month runs into the next one), and keeps the time within the day. The
  new local time is therefore the next local day at the same time within the day; it
  is converted back to UTC and clipped to the range of \<open>Date\<close>.
\<close>

fun setDate_next :: "timezone \<Rightarrow> jsnum \<Rightarrow> jsnum" where
  "setDate_next tz (Num t) =
     (let local = LocalTime tz t
      in TimeClip (Num (UTC tz ((Day local + 1) * msPerDay + TimeWithinDay local))))"
| "setDate_next tz PosInf = NaN"
| "setDate_next tz NegInf = NaN"
| "setDate_next tz NaN = NaN"

section \<open>Notification service\<close>

text \<open>The parameter \<open>n\<close> is the source's \<open>interval\<close>.\<close>

fun getIntervalMilliseconds :: "jsnum \<Rightarrow> IntervalUnit \<Rightarrow> jsnum" where
  "getIntervalMilliseconds n Minutes = js_mul (js_mul n (Num 60)) (Num 1000)"
| "getIntervalMilliseconds n Hours = js_mul (js_mul (js_mul n (Num 60)) (Num 60)) (Num 1000)"
| "getIntervalMilliseconds n Days =
     js_mul (js_mul (js_mul (js_mul n (Num 24)) (Num 60)) (Num 60)) (Num 1000)"
| "getIntervalMilliseconds n (OtherUnit s) = Num 0"

subsection \<open>The timers of the window and the scheduler's map\<close>

text \<open>
  A pending timeout of the window: its handle, the reminder that the callback closure
  has captured, and the delay it was armed with.
\<close>

record Timer =
  handle :: nat
  callbackReminder :: Reminder
  delay :: jsnum

text \<open>
  \<open>scheduledNotifications\<close> is the module's map from reminder id to timer handle.
  \<open>timers\<close> are the pending timeouts of the window and \<open>nextHandle\<close> the handle that
  the next \<open>setTimeout\<close> returns (handles are never reused). \<open>shown\<close> records the
  calls of \<open>showNotification\<close>, oldest first.
\<close>

record Scheduler =
  scheduledNotifications :: "string \<rightharpoonup> nat"
  timers :: "Timer list"
  nextHandle :: nat
  shown :: "Reminder list"

definition initialScheduler :: Scheduler where
  "initialScheduler =
     \<lparr>scheduledNotifications = Map.empty, timers = [], nextHandle = 1, shown = []\<rparr>"

definition setTimeout :: "Reminder \<Rightarrow> jsnum \<Rightarrow> Scheduler \<Rightarrow> nat \<times> Scheduler" where
  "setTimeout reminder d s =
     (nextHandle s,
      s\<lparr>timers := timers s @ [\<lparr>handle = nextHandle s, callbackReminder = reminder, delay = d\<rparr>],
        nextHandle := Suc (nextHandle s)\<rparr>)"

text \<open>
  How long the window waits before a timeout is due: the delay argument is converted to
  a 32-bit integer (NaN and the infinities become 0, other values wrap) and a negative
  result counts as 0.
\<close>

fun timeoutMilliseconds :: "jsnum \<Rightarrow> int" where
  "timeoutMilliseconds (Num d) = max 0 ((d + 2147483648) mod 4294967296 - 2147483648)"
| "timeoutMilliseconds PosInf = 0"
| "timeoutMilliseconds NegInf = 0"
| "timeoutMilliseconds NaN = 0"

definition clearTimeout :: "nat \<Rightarrow> Scheduler \<Rightarrow> Scheduler" where
  "clearTimeout timerId s = s\<lparr>timers := filter (\<lambda>t. handle t \<noteq> timerId) (timers s)\<rparr>"

definition showNotification :: "Reminder \<Rightarrow> Scheduler \<Rightarrow> Scheduler" where
  "showNotification reminder s = s\<lparr>shown := shown s @ [reminder]\<rparr>"

definition cancelNotification :: "string \<Rightarrow> Scheduler \<Rightarrow> Scheduler" where
  "cancelNotification i s =
     (case scheduledNotifications s i of
        None \<Rightarrow> s
      | Some timerId \<Rightarrow>
          (let s1 = clearTimeout timerId s
           in s1\<lparr>scheduledNotifications := (scheduledNotifications s1)(i := None)\<rparr>))"

subsection \<open>\<open>scheduleNotification\<close>\<close>

text \<open>
  The target of the exact mode before any adjustment: today's occurrence of the time of
  day. One call of \<open>scheduleNotification\<close> is taken to read the clock at one instant:
  \<open>now\<close> is the value of both \<open>new Date()\<close>.
\<close>

definition todayOccurrence :: "timezone \<Rightarrow> int \<Rightarrow> string \<Rightarrow> jsnum" where
  "todayOccurrence tz now tod =
     (let parts = map Number_js (split CHR '':'' tod);
          hours = element_or_undefined parts 0;
          minutes = element_or_undefined parts 1
      in setHours tz (Num now) hours minutes (Finite 0) (Finite 0))"

text \<open>
  The loop \<open>while (targetDate.getTime() <= now.getTime()) targetDate.setTime(...)\<close>.
  It is written as the source has it, with no bound; \<open>None\<close> is a loop that never ends.
  \<open>setTime\<close> clips its argument to the range of \<open>Date\<close>.
\<close>

partial_function (option) advance_while :: "jsnum \<Rightarrow> int \<Rightarrow> jsnum \<Rightarrow> jsnum option" where
  "advance_while intervalMs now targetDate =
     (if js_le targetDate (Num now)
      then advance_while intervalMs now (TimeClip (js_add targetDate intervalMs))
      else Some targetDate)"

declare advance_while.simps [code]

text \<open>The time value of \<open>targetDate\<close> when the exact branch reaches the delay.\<close>

definition exactTarget :: "timezone \<Rightarrow> int \<Rightarrow> Reminder \<Rightarrow> string \<Rightarrow> jsnum option" where
  "exactTarget tz now reminder tod =
     (let targetDate = todayOccurrence tz now tod
      in if js_le targetDate (Num now) then
           (if isRecurring reminder = Some True then
              (let intervalMs =
                     getIntervalMilliseconds (or_num (interval reminder) (Num 1))
                       (or_unit (intervalUnit reminder) Days)
               in if js_gt intervalMs (Num 0) then advance_while intervalMs now targetDate
                  else Some (setDate_next tz targetDate))
            else Some (setDate_next tz targetDate))
         else Some targetDate)"

text \<open>
  The end of \<open>scheduleNotification\<close>: the guard \<open>if (delay <= 0) return\<close>, then
  \<open>setTimeout\<close> and the entry of the map.
\<close>

definition arm :: "Reminder \<Rightarrow> jsnum \<Rightarrow> Scheduler \<Rightarrow> Scheduler" where
  "arm reminder d s =
     (if js_le d (Num 0) then s
      else (let (timeoutId, s1) = setTimeout reminder d s
            in s1\<lparr>scheduledNotifications :=
                    (scheduledNotifications s1)(id_r reminder \<mapsto> timeoutId)\<rparr>))"

text \<open>
  \<open>scheduleNotification\<close> in the time zone \<open>tz\<close> at the instant \<open>now\<close>. The result is
  \<open>None\<close> when the call does not return.
\<close>

definition scheduleNotification ::
  "timezone \<Rightarrow> int \<Rightarrow> Reminder \<Rightarrow> Scheduler \<Rightarrow> Scheduler option" where
  "scheduleNotification tz now reminder s0 =
     (let s = cancelNotification (id_r reminder) s0
      in if triggerType reminder \<noteq> Time then Some s
         else if triggerTimeType reminder = Some Exact \<and> truthy_string (timeOfDay reminder) then
           (case exactTarget tz now reminder (the (timeOfDay reminder)) of
              None \<Rightarrow> None
            | Some targetDate \<Rightarrow> Some (arm reminder (js_sub targetDate (Num now)) s))
         else if triggerTimeType reminder = Some Interval then
           (if \<not> truthy_num (interval reminder) then Some s
            else if \<not> truthy_unit (intervalUnit reminder) then Some s
            else Some (arm reminder
                   (getIntervalMilliseconds (the (interval reminder)) (the (intervalUnit reminder)))
                   s))
         else Some (arm reminder (Num 0) s))"

text \<open>
  The timeout with handle \<open>h\<close> expires at the instant \<open>now\<close>: the window drops it and
  runs its callback. A handle that is not pending runs nothing.
\<close>

definition timerFires :: "timezone \<Rightarrow> int \<Rightarrow> nat \<Rightarrow> Scheduler \<Rightarrow> Scheduler option" where
  "timerFires tz now h s =
     (case find (\<lambda>t. handle t = h) (timers s) of
        None \<Rightarrow> Some s
      | Some t \<Rightarrow>
          (let reminder = callbackReminder t;
               s1 = showNotification reminder (clearTimeout h s)
           in if isRecurring reminder = Some True then scheduleNotification tz now reminder s1
              else Some (s1\<lparr>scheduledNotifications :=
                              (scheduledNotifications s1)(id_r reminder := None)\<rparr>)))"

text \<open>
  The states the scheduler can be in: from the initial one, by any sequence of calls of
  \<open>scheduleNotification\<close> and \<open>cancelNotification\<close> and of expiring timeouts.
\<close>

inductive reachable :: "Scheduler \<Rightarrow> bool" where
  reachable_initial: "reachable initialScheduler"
| reachable_schedule:
    "reachable s \<Longrightarrow> scheduleNotification tz now reminder s = Some s' \<Longrightarrow> reachable s'"
| reachable_cancel: "reachable s \<Longrightarrow> reachable (cancelNotification i s)"
| reachable_fire: "reachable s \<Longrightarrow> timerFires tz now h s = Some s' \<Longrightarrow> reachable s'"

text \<open>The pending timeouts whose callback belongs to the reminder id \<open>i\<close>.\<close>

definition liveTimers :: "string \<Rightarrow> Scheduler \<Rightarrow> Timer list" where
  "liveTimers i s = filter (\<lambda>t. id_r (callbackReminder t) = i) (timers s)"

text \<open>
  The invariant of the scheduler: every pending timeout is the one that the map records
  for the id of its reminder, and its handle is older than the next one; every entry of
  the map is the handle of a pending timeout for that id; no two pending timeouts share
  a handle.
\<close>

definition sched_inv :: "Scheduler \<Rightarrow> bool" where
  "sched_inv s =
     ((\<forall>t \<in> set (timers s).
         scheduledNotifications s (id_r (callbackReminder t)) = Some (handle t)
         \<and> handle t < nextHandle s)
      \<and> (\<forall>i h. scheduledNotifications s i = Some h \<longrightarrow>
            (\<exists>t \<in> set (timers s). handle t = h \<and> id_r (callbackReminder t) = i))
      \<and> distinct (map handle (timers s)))"

section \<open>Location service\<close>

subsection \<open>Distance\<close>

text \<open>
  Coordinates and distances are doubles in the program. Here they are real numbers, and
  \<open>Math.sin\<close>, \<open>Math.cos\<close>, \<open>Math.sqrt\<close> and \<open>Math.PI\<close> are the real functions and
  constant: this is the formula that the program evaluates, without the rounding of its
  evaluation in doubles. \<open>Math.atan2(y, x)\<close> is the angle of the point \<open>(x, y)\<close>, between
  \<open>-pi\<close> and \<open>pi\<close>. The tracker uses the distance for one thing, the comparison with
  the radius of a fence; the properties of the tracker below hold for whatever that
  comparison gives, and the formula is evaluated on the sample positions only.
\<close>

definition atan2 :: "real \<Rightarrow> real \<Rightarrow> real" where
  "atan2 y x =
     (if 0 < x then arctan (y / x)
      else if x < 0 then (if 0 \<le> y then arctan (y / x) + pi else arctan (y / x) - pi)
      else if 0 < y then pi / 2
      else if y < 0 then - (pi / 2)
      else 0)"

text \<open>The quantity \<open>a\<close> of \<open>calculateDistance\<close>: the haversine of the central angle.\<close>

definition haversine_a :: "real \<Rightarrow> real \<Rightarrow> real \<Rightarrow> real \<Rightarrow> real" where
  "haversine_a lat1 lon1 lat2 lon2 =
     (let \<phi>1 = lat1 * pi / 180;
          \<phi>2 = lat2 * pi / 180;
          \<Delta>\<phi> = (lat2 - lat1) * pi / 180;
          \<Delta>lambda = (lon2 - lon1) * pi / 180
      in sin (\<Delta>\<phi> / 2) * sin (\<Delta>\<phi> / 2) +
         cos \<phi>1 * cos \<phi>2 * sin (\<Delta>lambda / 2) * sin (\<Delta>lambda / 2))"

definition calculateDistance :: "real \<Rightarrow> real \<Rightarrow> real \<Rightarrow> real \<Rightarrow> real" where
  "calculateDistance lat1 lon1 lat2 lon2 =
     (let R = 6371000;
          a = haversine_a lat1 lon1 lat2 lon2;
          c = 2 * atan2 (sqrt a) (sqrt (1 - a))
      in R * c)"

subsection \<open>The tracker and the geolocation service of the browser\<close>

record Position =
  latitude :: real
  longitude :: real

datatype PositionErrorCode = PERMISSION_DENIED | POSITION_UNAVAILABLE | TIMEOUT

record GeolocationPositionError =
  code :: PositionErrorCode
  message :: string

record PositionOptions =
  enableHighAccuracy :: bool
  timeout :: nat
  maximumAge :: nat

text \<open>
  The callbacks that \<open>startWatchingLocation\<close> hands to the browser, as data: the two
  success callbacks with the reminder list their closure holds, and \<open>handleError\<close>.
\<close>

datatype SuccessCallback = InitializeStates "Reminder list" | CheckReminders "Reminder list"

datatype ErrorCallback = HandleError

text \<open>
  A request to the geolocation service: the arguments of \<open>getCurrentPosition\<close> or
  \<open>watchPosition\<close>. An argument that the call does not pass is \<open>None\<close>.
\<close>

record GeoRequest =
  onSuccess :: SuccessCallback
  onError :: "ErrorCallback option"
  options :: "PositionOptions option"

text \<open>
  \<open>watchId\<close> and \<open>locationStates\<close> are the variables of the module (the stored
  \<open>wasInside\<close> of each reminder id). \<open>pendingReads\<close> are the one-shot requests that
  the browser has not answered yet, \<open>watches\<close> its active subscriptions by id, and
  \<open>nextWatchId\<close> the id that the next \<open>watchPosition\<close> returns. \<open>triggered\<close>,
  \<open>consoleErrors\<close> and \<open>alerts\<close> record the calls of \<open>onTrigger\<close>,
  \<open>console.error\<close> and \<open>alert\<close>, oldest first.
\<close>

record Tracker =
  watchId :: "nat option"
  locationStates :: "string \<rightharpoonup> bool"
  pendingReads :: "GeoRequest list"
  watches :: "(nat \<times> GeoRequest) list"
  nextWatchId :: nat
  triggered :: "Reminder list"
  consoleErrors :: "string list"
  alerts :: "string list"

definition initialTracker :: Tracker where
  "initialTracker =
     \<lparr>watchId = None, locationStates = Map.empty, pendingReads = [], watches = [],
      nextWatchId = 1, triggered = [], consoleErrors = [], alerts = []\<rparr>"

definition onTrigger :: "Reminder \<Rightarrow> Tracker \<Rightarrow> Tracker" where
  "onTrigger reminder s = s\<lparr>triggered := triggered s @ [reminder]\<rparr>"

definition isInsideOf :: "Position \<Rightarrow> GeoLocation \<Rightarrow> bool" where
  "isInsideOf position loc =
     (calculateDistance (latitude position) (longitude position) (lat loc) (lng loc)
        \<le> radius loc)"

text \<open>The body of the loop of \<open>checkReminders\<close> for one reminder.\<close>

definition checkReminder :: "Position \<Rightarrow> Reminder \<Rightarrow> Tracker \<Rightarrow> Tracker" where
  "checkReminder position reminder s =
     (case location reminder of
        None \<Rightarrow> s
      | Some loc \<Rightarrow>
          (let isInside = isInsideOf position loc;
               wasInside = (case locationStates s (id_r reminder) of
                              None \<Rightarrow> isInside
                            | Some w \<Rightarrow> w);
               s1 = (if wasInside \<noteq> isInside then
                       (if isInside \<and> triggerOn loc = OnEnter then onTrigger reminder s
                        else if \<not> isInside \<and> triggerOn loc = OnLeave then onTrigger reminder s
                        else s)
                     else s)
           in s1\<lparr>locationStates := (locationStates s1)(id_r reminder \<mapsto> isInside)\<rparr>))"

fun checkReminders :: "Position \<Rightarrow> Reminder list \<Rightarrow> Tracker \<Rightarrow> Tracker" where
  "checkReminders position [] s = s"
| "checkReminders position (reminder # rest) s =
     checkReminders position rest (checkReminder position reminder s)"

text \<open>The success callback of the one-shot read in \<open>startWatchingLocation\<close>.\<close>

fun initializeStates :: "Position \<Rightarrow> Reminder list \<Rightarrow> Tracker \<Rightarrow> Tracker" where
  "initializeStates position [] s = s"
| "initializeStates position (reminder # rest) s =
     initializeStates position rest
       (case location reminder of
          None \<Rightarrow> s
        | Some loc \<Rightarrow>
            s\<lparr>locationStates := (locationStates s)(id_r reminder \<mapsto> isInsideOf position loc)\<rparr>)"

definition clearWatch :: "nat \<Rightarrow> Tracker \<Rightarrow> Tracker" where
  "clearWatch w s = s\<lparr>watches := filter (\<lambda>(w', rq). w' \<noteq> w) (watches s)\<rparr>"

definition stopWatchingLocation :: "Tracker \<Rightarrow> Tracker" where
  "stopWatchingLocation s =
     (case watchId s of
        None \<Rightarrow> s
      | Some w \<Rightarrow> (clearWatch w s)\<lparr>watchId := None\<rparr>)"

definition getCurrentPosition :: "GeoRequest \<Rightarrow> Tracker \<Rightarrow> Tracker" where
  "getCurrentPosition rq s = s\<lparr>pendingReads := pendingReads s @ [rq]\<rparr>"

definition watchPosition :: "GeoRequest \<Rightarrow> Tracker \<Rightarrow> nat \<times> Tracker" where
  "watchPosition rq s =
     (nextWatchId s,
      s\<lparr>watches := watches s @ [(nextWatchId s, rq)], nextWatchId := Suc (nextWatchId s)\<rparr>)"

definition startWatchingLocation :: "Reminder list \<Rightarrow> Tracker \<Rightarrow> Tracker" where
  "startWatchingLocation reminders s0 =
     (let s1 = (if watchId s0 \<noteq> None then stopWatchingLocation s0 else s0);
          s2 = s1\<lparr>locationStates := Map.empty\<rparr>;
          s3 = getCurrentPosition
                 \<lparr>onSuccess = InitializeStates reminders, onError = None, options = None\<rparr> s2;
          (w, s4) = watchPosition
                 \<lparr>onSuccess = CheckReminders reminders, onError = Some HandleError,
                  options = Some \<lparr>enableHighAccuracy = True, timeout = 10000, maximumAge = 0\<rparr>\<rparr>
                 s3
      in s4\<lparr>watchId := Some w\<rparr>)"

definition handleError :: "GeolocationPositionError \<Rightarrow> Tracker \<Rightarrow> Tracker" where
  "handleError error s =
     (let s1 = s\<lparr>consoleErrors := consoleErrors s @ [''Error watching location: '' @ message error]\<rparr>;
          s2 = stopWatchingLocation s1
      in if code error = PERMISSION_DENIED
         then s2\<lparr>alerts := alerts s2 @
                [''Location permission was denied. Location-based reminders will not work. To use this feature, please enable location access for this site in your browser settings.'']\<rparr>
         else s2\<lparr>alerts := alerts s2 @
                [''Could not get your location. Location-based reminders may not function correctly.'']\<rparr>)"

text \<open>
  What the browser does with the requests. A one-shot request is answered once, with a
  position or with an error, and is then gone; a watch delivers positions and errors for
  as long as it is active. An answer runs the callback that the request holds; an error
  for a request with no error callback runs nothing.
\<close>

datatype GeoEvent =
    ReadSucceeds nat Position
  | ReadFails nat GeolocationPositionError
  | WatchSample nat Position
  | WatchFails nat GeolocationPositionError

fun runSuccess :: "SuccessCallback \<Rightarrow> Position \<Rightarrow> Tracker \<Rightarrow> Tracker" where
  "runSuccess (InitializeStates reminders) position s = initializeStates position reminders s"
| "runSuccess (CheckReminders reminders) position s = checkReminders position reminders s"

fun runError :: "ErrorCallback option \<Rightarrow> GeolocationPositionError \<Rightarrow> Tracker \<Rightarrow> Tracker" where
  "runError None error s = s"
| "runError (Some HandleError) error s = handleError error s"

definition dropRead :: "nat \<Rightarrow> Tracker \<Rightarrow> Tracker" where
  "dropRead k s = s\<lparr>pendingReads := take k (pendingReads s) @ drop (Suc k) (pendingReads s)\<rparr>"

fun deliver :: "GeoEvent \<Rightarrow> Tracker \<Rightarrow> Tracker" where
  "deliver (ReadSucceeds k position) s =
     (if k < length (pendingReads s)
      then runSuccess (onSuccess (pendingReads s ! k)) position (dropRead k s)
      else s)"
| "deliver (ReadFails k error) s =
     (if k < length (pendingReads s)
      then runError (onError (pendingReads s ! k)) error (dropRead k s)
      else s)"
| "deliver (WatchSample w position) s =
     (case map_of (watches s) w of
        None \<Rightarrow> s
      | Some rq \<Rightarrow> runSuccess (onSuccess rq) position s)"
| "deliver (WatchFails w error) s =
     (case map_of (watches s) w of
        None \<Rightarrow> s
      | Some rq \<Rightarrow> runError (onError rq) error s)"

fun run :: "GeoEvent list \<Rightarrow> Tracker \<Rightarrow> Tracker" where
  "run [] s = s"
| "run (e # es) s = run es (deliver e s)"

subsection \<open>The trigger condition of the specification\<close>

text \<open>
  A position sample fires the trigger of a reminder when the reminder has a stored
  state, \<open>isInside\<close> of the sample differs from it, and the change goes in the
  direction of \<open>triggerOn\<close>.
\<close>

definition fires :: "Position \<Rightarrow> (string \<rightharpoonup> bool) \<Rightarrow> Reminder \<Rightarrow> bool" where
  "fires position states reminder =
     (case location reminder of
        None \<Rightarrow> False
      | Some loc \<Rightarrow>
          (case states (id_r reminder) of
             None \<Rightarrow> False
           | Some insideRadius \<Rightarrow>
               isInsideOf position loc \<noteq> insideRadius
               \<and> ((isInsideOf position loc \<and> triggerOn loc = OnEnter)
                    \<or> (\<not> isInsideOf position loc \<and> triggerOn loc = OnLeave))))"

text \<open>The same condition between two consecutive samples.\<close>

definition crossing :: "Position \<Rightarrow> Position \<Rightarrow> Reminder \<Rightarrow> bool" where
  "crossing before after reminder =
     (case location reminder of
        None \<Rightarrow> False
      | Some loc \<Rightarrow>
          isInsideOf after loc \<noteq> isInsideOf before loc
          \<and> ((isInsideOf after loc \<and> triggerOn loc = OnEnter)
               \<or> (\<not> isInsideOf after loc \<and> triggerOn loc = OnLeave)))"

subsection \<open>Runs of the tracker\<close>




text \<open>
  The states the tracker can be in: from the initial one, by calls of
  \<open>startWatchingLocation\<close> and \<open>stopWatchingLocation\<close> and by answers of the browser.
\<close>

inductive tracking :: "Tracker \<Rightarrow> bool" where
  tracking_initial: "tracking initialTracker"
| tracking_start: "tracking s \<Longrightarrow> tracking (startWatchingLocation reminders s)"
| tracking_stop: "tracking s \<Longrightarrow> tracking (stopWatchingLocation s)"
| tracking_deliver: "tracking s \<Longrightarrow> tracking (deliver e s)"

text \<open>
  The invariant of the tracker: a pending one-shot request holds the callback that
  initialises the states, no error callback and no options; an active watch is the one
  that \<open>watchId\<close> names, and holds \<open>checkReminders\<close> and \<open>handleError\<close>.
\<close>

definition tracker_inv :: "Tracker \<Rightarrow> bool" where
  "tracker_inv s =
     ((\<forall>rq \<in> set (pendingReads s).
         (\<exists>reminders. onSuccess rq = InitializeStates reminders)
         \<and> onError rq = None \<and> options rq = None)
      \<and> (\<forall>(w, rq) \<in> set (watches s).
            watchId s = Some w \<and> (\<exists>reminders. onSuccess rq = CheckReminders reminders)
            \<and> onError rq = Some HandleError))"


section \<open>Sample inputs\<close>

text \<open>A time zone whose offset from UTC never changes.\<close>

definition fixedZone :: "int \<Rightarrow> timezone" where
  "fixedZone off = (\<lambda>t isUTC. off)"

text \<open>A time reminder with every optional field still missing.\<close>

definition timeReminder :: "string \<Rightarrow> Reminder" where
  "timeReminder i =
     \<lparr>id_r = i, createdAt = 0, text_r = ''Call mom'', triggerType = Time,
      triggerTimeType = None, timeOfDay = None, isRecurring = None, interval = None,
      intervalUnit = None, location = None, vibrate = False, sound = ''default''\<rparr>"

text \<open>"Every 10 minutes".\<close>

definition everyTenMinutes :: Reminder where
  "everyTenMinutes =
     (timeReminder ''r1'')\<lparr>triggerTimeType := Some Interval, interval := Some (Num 10),
        intervalUnit := Some Minutes, isRecurring := Some True\<rparr>"

text \<open>An exact-mode recurring reminder whose time of day was never filled in.\<close>

definition exactWithoutTime :: Reminder where
  "exactWithoutTime =
     (timeReminder ''r2'')\<lparr>triggerTimeType := Some Exact, isRecurring := Some True,
        interval := Some (Num 1), intervalUnit := Some Days\<rparr>"

text \<open>"At 09:00, then every 2 hours".\<close>

definition nineEveryTwoHours :: Reminder where
  "nineEveryTwoHours =
     (timeReminder ''r3'')\<lparr>triggerTimeType := Some Exact, timeOfDay := Some ''09:00'',
        isRecurring := Some True, interval := Some (Num 2), intervalUnit := Some Hours\<rparr>"

text \<open>"At 09:00, then every 200,000,000 days".\<close>

definition nineEveryAeon :: Reminder where
  "nineEveryAeon =
     (timeReminder ''r7'')\<lparr>triggerTimeType := Some Exact, timeOfDay := Some ''09:00'',
        isRecurring := Some True, interval := Some (Num 200000000), intervalUnit := Some Days\<rparr>"

text \<open>"Every 9,007,199,254,740,991 minutes": the largest whole number below \<open>2^53\<close>.\<close>

definition everyMaxSafeMinutes :: Reminder where
  "everyMaxSafeMinutes =
     (timeReminder ''r8'')\<lparr>triggerTimeType := Some Interval,
        interval := Some (Num 9007199254740991), intervalUnit := Some Minutes\<rparr>"




text \<open>An exact-mode reminder whose time of day is the text "noon".\<close>

definition atNoon :: Reminder where
  "atNoon =
     (timeReminder ''r6'')\<lparr>triggerTimeType := Some Exact, timeOfDay := Some ''noon'',
        isRecurring := Some False\<rparr>"

text \<open>A fence of 100 m around the point \<open>(0, 0)\<close>, and a reminder to fire on arrival.\<close>

definition homeFence :: GeoLocation where
  "homeFence = \<lparr>address = ''Home'', lat = 0, lng = 0, radius = 100, triggerOn = OnEnter\<rparr>"

definition arriveHome :: Reminder where
  "arriveHome =
     \<lparr>id_r = ''h'', createdAt = 0, text_r = ''Feed the cat'', triggerType = Location,
      triggerTimeType = None, timeOfDay = None, isRecurring = None, interval = None,
      intervalUnit = None, location = Some homeFence, vibrate = True, sound = ''chime''\<rparr>"

text \<open>
  Two positions: the centre of the fence, and a point 0.002 degrees of latitude (about
  220 m) to the north of it.
\<close>

definition atHome :: Position where
  "atHome = \<lparr>latitude = 0, longitude = 0\<rparr>"

definition nearHome :: Position where
  "nearHome = \<lparr>latitude = 1 / 500, longitude = 0\<rparr>"

text \<open>An error of the geolocation service.\<close>

definition permissionDenied :: GeolocationPositionError where
  "permissionDenied = \<lparr>code = PERMISSION_DENIED, message = ''User denied Geolocation''\<rparr>"

section \<open>Properties of the time scheduler\<close>

subsection \<open>The arithmetic of doubles on whole numbers\<close>

lemma bitLength_le: "n < 2 ^ k \<Longrightarrow> bitLength n \<le> k"
proof (induction k arbitrary: n)
  case 0
  then show ?case by (subst bitLength.simps) simp
next
  case (Suc k)
  show ?case
  proof (cases "n \<le> 0")
    case True
    then show ?thesis by (subst bitLength.simps) simp
  next
    case False
    have "n div 2 < 2 ^ k" using Suc.prems by simp
    then have "bitLength (n div 2) \<le> k" by (rule Suc.IH)
    then show ?thesis using False by (subst bitLength.simps) simp
  qed
qed

lemma bitLength_ge: "2 ^ k \<le> n \<Longrightarrow> k < bitLength n"
proof (induction k arbitrary: n)
  case 0
  then show ?case by (subst bitLength.simps) simp
next
  case (Suc k)
  have "2 ^ k \<le> n div 2" using Suc.prems by simp
  then have "k < bitLength (n div 2)" by (rule Suc.IH)
  moreover have "(0::int) < 2 ^ Suc k" by simp
  then have "\<not> n \<le> 0" using Suc.prems by linarith
  ultimately show ?case by (subst bitLength.simps) simp
qed

lemma bitLength_lower: "0 < n \<Longrightarrow> 2 ^ (bitLength n - 1) \<le> n"
proof (induction n rule: bitLength.induct)
  case (1 n)
  show ?case
  proof (cases "n div 2 \<le> 0")
    case True
    then have "n = 1" using 1(2) by linarith
    then show ?thesis by (subst bitLength.simps, subst bitLength.simps) simp
  next
    case False
    then have p: "0 < n div 2" by simp
    have ih: "2 ^ (bitLength (n div 2) - 1) \<le> n div 2"
      using 1(1) 1(2) p by simp
    have b: "0 < bitLength (n div 2)"
      using p by (subst bitLength.simps) simp
    have e: "bitLength n = Suc (bitLength (n div 2))"
      using 1(2) by (subst bitLength.simps) simp
    have "(2::int) ^ (bitLength n - 1) = 2 * 2 ^ (bitLength (n div 2) - 1)"
      using b unfolding e by (cases "bitLength (n div 2)") simp_all
    also have "\<dots> \<le> 2 * (n div 2)" using ih by simp
    also have "\<dots> \<le> n" by simp
    finally show ?thesis .
  qed
qed

text \<open>Up to \<open>2^53 - 1\<close> every whole number is a double.\<close>

lemma toDouble_exact: "\<bar>x\<bar> \<le> 9007199254740991 \<Longrightarrow> toDouble x = Num x"
proof -
  assume "\<bar>x\<bar> \<le> 9007199254740991"
  then have "\<bar>x\<bar> < 2 ^ 53" by simp
  then have "bitLength \<bar>x\<bar> \<le> 53" by (rule bitLength_le)
  then show ?thesis by (simp add: toDouble_def Let_def)
qed

text \<open>Beyond, the rounded value is at least \<open>2^53\<close> in magnitude.\<close>

lemma toDouble_beyond:
  assumes "9007199254740991 < \<bar>x\<bar>"
  shows "toDouble x = PosInf \<or> toDouble x = NegInf
     \<or> (\<exists>v. toDouble x = Num v \<and> 9007199254740992 \<le> \<bar>v\<bar>)"
proof -
  define m where "m = \<bar>x\<bar>"
  define b where "b = bitLength m"
  define u :: int where "u = 2 ^ (b - 53)"
  define q where "q = m div u"
  define q' where "q' = (if 2 * (m mod u) < u then q
                         else if u < 2 * (m mod u) then q + 1
                         else if even q then q else q + 1)"
  have m53: "2 ^ 53 \<le> m" using assms by (simp add: m_def)
  then have b53: "53 < b" unfolding b_def by (rule bitLength_ge)
  have mpos: "0 < m" using m53 by (smt (verit) zero_less_power)
  have low: "2 ^ (b - 1) \<le> m" unfolding b_def using mpos by (rule bitLength_lower)
  have split: "(2::int) ^ (b - 1) = 2 ^ 52 * u"
  proof -
    have "b - 1 = 52 + (b - 53)" using b53 by simp
    then show ?thesis unfolding u_def by (simp only: power_add)
  qed
  have upos: "0 < u" by (simp add: u_def)
  have u2: "2 \<le> u"
  proof -
    have "(2::int) ^ 1 \<le> 2 ^ (b - 53)" using b53 by (intro power_increasing) simp_all
    then show ?thesis by (simp add: u_def)
  qed
  have "2 ^ 52 * u div u \<le> m div u" using low unfolding split by (rule zdiv_mono1) (rule upos)
  then have q52: "2 ^ 52 \<le> q" using upos by (simp add: q_def)
  have qq: "q \<le> q'" by (simp add: q'_def)
  have "2 ^ 52 * 2 \<le> q' * u"
    using q52 qq u2 by (intro mult_mono) simp_all
  then have big: "9007199254740992 \<le> q' * u" by simp
  have td: "toDouble x = (if 2 ^ 1024 \<le> q' * u then (if 0 < x then PosInf else NegInf)
                 else Num (if 0 < x then q' * u else - (q' * u)))"
  proof -
    have nb: "\<not> bitLength \<bar>x\<bar> \<le> 53" using b53 by (simp add: b_def m_def)
    show ?thesis
      unfolding toDouble_def Let_def q'_def q_def u_def b_def m_def using nb
      by (simp only: if_False)
  qed
  show ?thesis
  proof (cases "(2::int) ^ 1024 \<le> q' * u")
    case True
    then show ?thesis unfolding td by simp
  next
    case False
    then have "toDouble x = Num (if 0 < x then q' * u else - (q' * u))" unfolding td by simp
    moreover have "9007199254740992 \<le> \<bar>if 0 < x then q' * u else - (q' * u)\<bar>"
      using big by simp
    ultimately show ?thesis by blast
  qed
qed

text \<open>
  So clipping a rounded whole number to the range of \<open>Date\<close>, which ends below
  \<open>2^53\<close>, is clipping the number itself.
\<close>

lemma TimeClip_toDouble: "TimeClip (toDouble x) = TimeClip (Num x)"
proof (cases "\<bar>x\<bar> \<le> 9007199254740991")
  case True
  then show ?thesis by (simp add: toDouble_exact)
next
  case False
  then have b: "9007199254740991 < \<bar>x\<bar>" by simp
  then have r: "TimeClip (Num x) = NaN" by simp
  from toDouble_beyond [OF b] have "TimeClip (toDouble x) = NaN" by auto
  with r show ?thesis by simp
qed

lemma js_mul_exact: "\<bar>a * b\<bar> \<le> 9007199254740991 \<Longrightarrow> js_mul (Num a) (Num b) = Num (a * b)"
  unfolding js_mul.simps by (rule toDouble_exact)

lemma js_add_exact: "\<bar>a + b\<bar> \<le> 9007199254740991 \<Longrightarrow> js_add (Num a) (Num b) = Num (a + b)"
  unfolding js_add.simps by (rule toDouble_exact)

lemma js_sub_exact: "\<bar>a - b\<bar> \<le> 9007199254740991 \<Longrightarrow> js_sub (Num a) (Num b) = Num (a - b)"
  unfolding js_sub.simps by (rule toDouble_exact)

text \<open>
  The milliseconds of an interval are exact as long as they do not exceed
  \<open>2^53 - 1\<close>.
\<close>

lemma getIntervalMilliseconds_exact:
  assumes "0 < n"
    and "(u = Minutes \<and> ms = n * 60000) \<or> (u = Hours \<and> ms = n * 3600000)
           \<or> (u = Days \<and> ms = n * 86400000)"
    and "ms \<le> 9007199254740991"
  shows "getIntervalMilliseconds (Num n) u = Num ms"
proof -
  from assms(2) consider "u = Minutes" "ms = n * 60000" | "u = Hours" "ms = n * 3600000"
    | "u = Days" "ms = n * 86400000" by blast
  then show ?thesis
  proof cases
    case 1
    have "\<bar>n * 60\<bar> \<le> 9007199254740991" "\<bar>n * 60 * 1000\<bar> \<le> 9007199254740991"
      using assms(1,3) 1(2) by simp_all
    then show ?thesis using 1 by (simp add: toDouble_exact)
  next
    case 2
    have "\<bar>n * 60\<bar> \<le> 9007199254740991" "\<bar>n * 60 * 60\<bar> \<le> 9007199254740991"
      "\<bar>n * 60 * 60 * 1000\<bar> \<le> 9007199254740991"
      using assms(1,3) 2(2) by simp_all
    then show ?thesis using 2 by (simp add: toDouble_exact)
  next
    case 3
    have "\<bar>n * 24\<bar> \<le> 9007199254740991" "\<bar>n * 24 * 60\<bar> \<le> 9007199254740991"
      "\<bar>n * 24 * 60 * 60\<bar> \<le> 9007199254740991"
      "\<bar>n * 24 * 60 * 60 * 1000\<bar> \<le> 9007199254740991"
      using assms(1,3) 3(2) by simp_all
    then show ?thesis using 3 by (simp add: toDouble_exact)
  qed
qed

subsection \<open>Values of the built-ins on sample inputs\<close>

text \<open>
  Rounding to the nearest double: down, up, and to the even neighbour on a tie.
\<close>

lemma toDouble_samples:
  "toDouble 9007199254740992 = Num 9007199254740992"
  "toDouble 9007199254740993 = Num 9007199254740992"
  "toDouble 9007199254740995 = Num 9007199254740996"
  "toDouble 9007199254740997 = Num 9007199254740996"
  "toDouble (- 9007199254740995) = Num (- 9007199254740996)"
  "toDouble 540431955284459460 = Num 540431955284459456"
  by code_simp+

lemma nearestDouble_samples:
  "nearestDouble (1 / 10) = Finite (3602879701896397 / 36028797018963968)"
  "nearestDouble (3 / 2) = Finite (3 / 2)"
  "nearestDouble 9007199254740993 = Finite 9007199254740992"
  by code_simp+

lemma Number_js_samples:
  "Number_js '' 12 '' = Finite 12"
  "Number_js ''1e1'' = Finite 10"
  "Number_js ''1.5'' = Finite (3 / 2)"
  "Number_js ''0x1F'' = Finite 31"
  by code_simp+

lemma Number_js_other_samples:
  "Number_js ''-Infinity'' = MinusInfinity"
  "Number_js ''12abc'' = NotANumber"
  "Number_js ''+0x10'' = NotANumber"
  "Number_js ''1e'' = NotANumber"
  by code_simp+

text \<open>
  Times of day: hours and minutes are truncated, further parts are ignored, a missing
  part makes the date invalid, and so does a time beyond the range of \<open>Date\<close>.
\<close>

lemma todayOccurrence_ignores_seconds:
  "todayOccurrence (fixedZone 0) 50000000 ''9:5:7'' = Num 32700000"
  by code_simp

lemma todayOccurrence_truncates:
  "todayOccurrence (fixedZone 0) 50000000 ''-1.5:30.9'' = Num (- 1800000)"
  by code_simp

lemma todayOccurrence_no_minutes:
  "todayOccurrence (fixedZone 0) 50000000 ''9'' = NaN"
  by code_simp

lemma todayOccurrence_range_end:
  "todayOccurrence (fixedZone 0) 50000000 ''2400000000:00'' = Num 8640000000000000"
  by code_simp

lemma todayOccurrence_beyond_range:
  "todayOccurrence (fixedZone 0) 50000000 ''2400000001:00'' = NaN"
  by code_simp

subsection \<open>Auxiliary facts\<close>


text \<open>
  The loop of the exact branch ends whenever the step is positive: at the first value
  beyond \<open>now\<close>, or with an invalid date when that value is beyond the range of
  \<open>Date\<close>.
\<close>

lemma advance_while_NaN: "advance_while intervalMs now NaN = Some NaN"
  by (subst advance_while.simps) simp

lemma advance_while_Num:
  assumes "0 < ms" and "- 8640000000000000 \<le> t"
  shows "advance_while (Num ms) now (Num t) =
           Some (if t \<le> now then TimeClip (Num (t + ((now - t) div ms + 1) * ms)) else Num t)"
  using assms(2)
proof (induction "nat (now - t + 1)" arbitrary: t rule: less_induct)
  case less
  show ?case
  proof (cases "t \<le> now")
    case False
    then show ?thesis by (subst advance_while.simps) simp
  next
    case True
    define x where "x = t + ms"
    define target where "target = t + ((now - t) div ms + 1) * ms"
    have q0: "0 \<le> (now - t) div ms"
      using True assms(1) by (simp add: pos_imp_zdiv_nonneg_iff)
    have "1 * ms \<le> ((now - t) div ms + 1) * ms"
      using q0 assms(1) by (intro mult_right_mono) simp_all
    then have xt: "x \<le> target" by (simp add: x_def target_def)
    have "advance_while (Num ms) now (Num t) =
            advance_while (Num ms) now (TimeClip (toDouble (t + ms)))"
      using True by (subst advance_while.simps) simp
    then have step: "advance_while (Num ms) now (Num t) =
            advance_while (Num ms) now (TimeClip (Num x))"
      unfolding TimeClip_toDouble x_def .
    have goal: "advance_while (Num ms) now (Num t) = Some (TimeClip (Num target))"
    proof (cases "8640000000000000 < x")
      case big: True
      then have "TimeClip (Num x) = NaN" by simp
      moreover have "TimeClip (Num target) = NaN" using big xt by simp
      ultimately show ?thesis unfolding step by (simp add: advance_while_NaN)
    next
      case False
      have lo: "- 8640000000000000 \<le> x" using less.prems assms(1) by (simp add: x_def)
      have clip: "TimeClip (Num x) = Num x" using False lo by simp
      have dec: "nat (now - x + 1) < nat (now - t + 1)"
        using True assms(1) by (simp add: x_def)
      note ih = less.hyps [OF dec lo]
      show ?thesis
      proof (cases "x \<le> now")
        case beyond: False
        then have "(now - t) div ms = 0"
          using True assms(1) by (simp add: div_pos_pos_trivial x_def)
        then have "target = x" by (simp add: target_def x_def)
        then show ?thesis unfolding step clip using ih beyond clip by simp
      next
        case T2: True
        have q: "(now - t) div ms = (now - x) div ms + 1"
        proof -
          have e: "now - x + 1 * ms = now - t" by (simp add: x_def)
          have "(now - x + 1 * ms) div ms = 1 + (now - x) div ms"
            using assms(1) by (subst div_mult_self1) auto
          then show ?thesis unfolding e by simp
        qed
        have "x + ((now - x) div ms + 1) * ms = target"
          unfolding target_def q by (simp add: x_def algebra_simps)
        then show ?thesis unfolding step clip using ih T2 by simp
      qed
    qed
    show ?thesis using goal True by (simp add: target_def)
  qed
qed

lemma next_multiple_after:
  fixes ms d :: int
  assumes "0 < ms"
  shows "d < (d div ms + 1) * ms"
proof -
  have e: "ms * (d div ms) + d mod ms = d" by (rule mult_div_mod_eq)
  have m: "d mod ms < ms" using assms by simp
  have x: "(d div ms + 1) * ms = ms * (d div ms) + ms" by (simp add: algebra_simps)
  show ?thesis unfolding x using e m by linarith
qed

lemma next_multiple_least:
  fixes ms d j :: int
  assumes "0 < ms" and "d < j * ms"
  shows "(d div ms + 1) * ms \<le> j * ms"
proof -
  have e: "ms * (d div ms) + d mod ms = d" by (rule mult_div_mod_eq)
  have m: "0 \<le> d mod ms" using assms(1) by simp
  have "ms * (d div ms) \<le> d" using e m by linarith
  then have "(d div ms) * ms \<le> d" by (simp add: mult.commute)
  then have "d div ms * ms < j * ms" using assms(2) by linarith
  then have "d div ms < j" using assms(1) by (simp add: mult_less_cancel_right)
  then have "d div ms + 1 \<le> j" by simp
  then show ?thesis using assms(1) by (simp add: mult_right_mono)
qed

lemma next_multiple_step:
  fixes ms d :: int
  assumes "0 < ms" and "0 \<le> d"
  shows "(d div ms + 1) * ms \<le> d + ms"
proof -
  have e: "ms * (d div ms) + d mod ms = d" by (rule mult_div_mod_eq)
  have m: "0 \<le> d mod ms" using assms(1) by simp
  have x: "(d div ms + 1) * ms = ms * (d div ms) + ms" by (simp add: algebra_simps)
  show ?thesis unfolding x using e m by linarith
qed

text \<open>
  Today's occurrence is a time value or NaN; with an empty time of day it is NaN (the
  minutes are missing).
\<close>

lemma todayOccurrence_empty: "todayOccurrence tz now [] = NaN"
  by (simp add: todayOccurrence_def Number_js_def trim_def element_or_undefined_def MakeTime_def)

lemma setHours_range:
  assumes "setHours tz d hour minute sec milli = Num t0"
  shows "\<bar>t0\<bar> \<le> 8640000000000000"
proof (cases d)
  case (Num t)
  show ?thesis
  proof (cases "MakeDate (Day (LocalTime tz t)) (MakeTime hour minute sec milli)")
    case date: (Num date)
    then have "TimeClip (Num (UTC tz date)) = Num t0" using assms Num by simp
    then show ?thesis by (simp split: if_splits)
  qed (use assms Num in simp_all)
qed (use assms in simp_all)

lemma todayOccurrence_range:
  assumes "todayOccurrence tz now tod = Num t0"
  shows "\<bar>t0\<bar> \<le> 8640000000000000"
  using assms unfolding todayOccurrence_def Let_def by (rule setHours_range)


text \<open>
  The window waits for the delay it is given as long as the delay is below \<open>2^31\<close> ms
  (about 24.8 days); a delay of 30 days wraps to a negative number and counts as 0.
\<close>

lemma timeoutMilliseconds_small:
  assumes "0 \<le> d" and "d < 2147483648"
  shows "timeoutMilliseconds (Num d) = d"
proof -
  have "(d + 2147483648) mod 4294967296 = d + 2147483648"
    using assms by (intro mod_pos_pos_trivial) simp_all
  then show ?thesis using assms by simp
qed

lemma thirty_days_wraps: "timeoutMilliseconds (Num (30 * 86400000)) = 0"
  by simp

subsection \<open>Interval mode\<close>

text \<open>
  The claim C3 as stated fails for a large interval: the milliseconds are a product of
  doubles, rounded at every multiplication. For "every 9,007,199,254,740,991 minutes"
  (the interval is a double) the timer is armed with a delay of
  540,431,955,284,459,454,464 ms, which is not 9,007,199,254,740,991 times 60,000.
\<close>

theorem schedule_interval_rounding_counterexample:
  "triggerType everyMaxSafeMinutes = Time
   \<and> triggerTimeType everyMaxSafeMinutes = Some Interval
   \<and> interval everyMaxSafeMinutes = Some (Num 9007199254740991)
   \<and> intervalUnit everyMaxSafeMinutes = Some Minutes
   \<and> toDouble 9007199254740991 = Num 9007199254740991
   \<and> scheduleNotification (fixedZone 0) 1000 everyMaxSafeMinutes initialScheduler =
       Some \<lparr>scheduledNotifications = [''r8'' \<mapsto> 1],
             timers = [\<lparr>handle = 1, callbackReminder = everyMaxSafeMinutes,
                        delay = Num 540431955284459454464\<rparr>],
             nextHandle = 2, shown = []\<rparr>
   \<and> (540431955284459454464::int) \<noteq> 9007199254740991 * 60000"
proof -
  have f: "triggerType everyMaxSafeMinutes = Time"
    "triggerTimeType everyMaxSafeMinutes = Some Interval"
    "interval everyMaxSafeMinutes = Some (Num 9007199254740991)"
    "intervalUnit everyMaxSafeMinutes = Some Minutes"
    "id_r everyMaxSafeMinutes = ''r8''"
    by (simp_all add: everyMaxSafeMinutes_def timeReminder_def)
  have n: "toDouble 9007199254740991 = Num 9007199254740991"
    by (rule toDouble_exact) simp
  have ms: "getIntervalMilliseconds (Num 9007199254740991) Minutes = Num 540431955284459454464"
    by code_simp
  have sched: "scheduleNotification (fixedZone 0) 1000 everyMaxSafeMinutes initialScheduler =
       Some \<lparr>scheduledNotifications = [''r8'' \<mapsto> 1],
             timers = [\<lparr>handle = 1, callbackReminder = everyMaxSafeMinutes,
                        delay = Num 540431955284459454464\<rparr>],
             nextHandle = 2, shown = []\<rparr>"
    using f
    by (simp add: scheduleNotification_def arm_def setTimeout_def Let_def ms
        cancelNotification_def initialScheduler_def del: getIntervalMilliseconds.simps)
  from f n sched show ?thesis by simp
qed

text \<open>
  Claim C3, amended. For a Time reminder in Interval mode with \<open>interval > 0\<close>, a unit
  among Minutes, Hours and Days, and \<open>interval\<close> times the unit's milliseconds (60,000,
  3,600,000 or 86,400,000) at most 9,007,199,254,740,991 (\<open>2^53 - 1\<close>, up to which the
  arithmetic of the program is exact), \<open>scheduleNotification\<close> returns after arming one
  timer, recorded in the map under the reminder's id, whose delay is exactly that
  product. The delay depends neither on the instant \<open>now\<close> of the call nor on the time
  zone: it is relative to the call, with no wall-clock anchoring. Here \<open>c\<close> is the
  state once the previous timer of the id has been cancelled.
\<close>

theorem schedule_interval_delay:
  assumes "triggerType r = Time" and "triggerTimeType r = Some Interval"
    and "interval r = Some (Num n)" and "0 < n" and "intervalUnit r = Some u"
    and "(u = Minutes \<and> ms = n * 60000) \<or> (u = Hours \<and> ms = n * 3600000)
           \<or> (u = Days \<and> ms = n * 86400000)"
    and "ms \<le> 9007199254740991"
    and "c = cancelNotification (id_r r) s"
  shows "scheduleNotification tz now r s =
     Some (c\<lparr>scheduledNotifications := (scheduledNotifications c)(id_r r \<mapsto> nextHandle c),
            timers := timers c @ [\<lparr>handle = nextHandle c, callbackReminder = r, delay = Num ms\<rparr>],
            nextHandle := Suc (nextHandle c)\<rparr>)"
proof -
  have d: "getIntervalMilliseconds (Num n) u = Num ms"
    using assms(4,6,7) by (rule getIntervalMilliseconds_exact)
  have tu: "truthy_unit (Some u)" using assms(6) by auto
  have pos: "\<not> js_le (Num ms) (Num 0)"
    using assms(4,6) by auto
  show ?thesis
    using assms(1,2,3,4,5,8) d tu pos
    by (simp add: scheduleNotification_def arm_def setTimeout_def Let_def)
qed

theorem schedule_interval_delay_witness:
  "scheduleNotification (fixedZone 0) 1000 everyTenMinutes initialScheduler =
   Some \<lparr>scheduledNotifications = [''r1'' \<mapsto> 1],
         timers = [\<lparr>handle = 1, callbackReminder = everyTenMinutes, delay = Num 600000\<rparr>],
         nextHandle = 2, shown = []\<rparr>"
proof -
  have h1: "triggerType everyTenMinutes = Time"
    and h2: "triggerTimeType everyTenMinutes = Some Interval"
    and h3: "interval everyTenMinutes = Some (Num 10)"
    and h5: "intervalUnit everyTenMinutes = Some Minutes"
    and i: "id_r everyTenMinutes = ''r1''"
    by (simp_all add: everyTenMinutes_def timeReminder_def)
  have h4: "(0::int) < 10" by simp
  have h6: "(Minutes = Minutes \<and> (600000::int) = 10 * 60000)
      \<or> (Minutes = Hours \<and> (600000::int) = 10 * 3600000)
      \<or> (Minutes = Days \<and> (600000::int) = 10 * 86400000)" by simp
  have h7: "(600000::int) \<le> 9007199254740991" by simp
  have h8: "initialScheduler = cancelNotification (id_r everyTenMinutes) initialScheduler"
    by (simp add: cancelNotification_def initialScheduler_def)
  show ?thesis
    using schedule_interval_delay [OF h1 h2 h3 h4 h5 h6 h7 h8, of "fixedZone 0" 1000]
    by (simp add: i initialScheduler_def)
qed

text \<open>
  The scenario of the specification: "every 10 minutes", scheduled at \<open>T\<close>, is armed
  for 10 minutes later; when that timeout expires the notification is shown and a new
  timeout is armed for another 10 minutes.
\<close>

lemma recurring_interval_rearms:
  "scheduleNotification (fixedZone 0) 1000 everyTenMinutes initialScheduler =
     Some \<lparr>scheduledNotifications = [''r1'' \<mapsto> 1],
           timers = [\<lparr>handle = 1, callbackReminder = everyTenMinutes, delay = Num 600000\<rparr>],
           nextHandle = 2, shown = []\<rparr>
   \<and> timerFires (fixedZone 0) 601000 1
       \<lparr>scheduledNotifications = [''r1'' \<mapsto> 1],
        timers = [\<lparr>handle = 1, callbackReminder = everyTenMinutes, delay = Num 600000\<rparr>],
        nextHandle = 2, shown = []\<rparr> =
     Some \<lparr>scheduledNotifications = [''r1'' \<mapsto> 2],
           timers = [\<lparr>handle = 2, callbackReminder = everyTenMinutes, delay = Num 600000\<rparr>],
           nextHandle = 3, shown = [everyTenMinutes]\<rparr>"
proof -
  have f: "triggerType everyTenMinutes = Time"
    "triggerTimeType everyTenMinutes = Some Interval"
    "interval everyTenMinutes = Some (Num 10)"
    "intervalUnit everyTenMinutes = Some Minutes"
    "isRecurring everyTenMinutes = Some True"
    "id_r everyTenMinutes = ''r1''"
    by (simp_all add: everyTenMinutes_def timeReminder_def)
  have ms: "getIntervalMilliseconds (Num 10) Minutes = Num 600000"
    by (simp add: toDouble_exact)
  show ?thesis
    using f
    by (simp add: scheduleNotification_def timerFires_def arm_def setTimeout_def Let_def ms
        cancelNotification_def clearTimeout_def showNotification_def initialScheduler_def
        del: getIntervalMilliseconds.simps)
qed

subsection \<open>Incomplete reminders\<close>

text \<open>
  Claim C4. For a Time reminder in Interval mode with no interval or no unit, and for
  one in Exact mode with no time of day (whether recurring or not), the call returns
  normally and does nothing but cancel the previous timer of the id: afterwards the map
  has no entry for the id, no timeout was created (the pending timeouts are among the
  earlier ones and the next handle is unchanged) and no notification was shown.
\<close>

theorem schedule_incomplete_noop:
  assumes "triggerType r = Time"
    and "(triggerTimeType r = Some Interval \<and> (interval r = None \<or> intervalUnit r = None))
           \<or> (triggerTimeType r = Some Exact \<and> timeOfDay r = None)"
  shows "scheduleNotification tz now r s = Some (cancelNotification (id_r r) s)
     \<and> scheduledNotifications (cancelNotification (id_r r) s) (id_r r) = None
     \<and> set (timers (cancelNotification (id_r r) s)) \<subseteq> set (timers s)
     \<and> nextHandle (cancelNotification (id_r r) s) = nextHandle s
     \<and> shown (cancelNotification (id_r r) s) = shown s"
proof -
  have ret: "scheduleNotification tz now r s = Some (cancelNotification (id_r r) s)"
    using assms by (auto simp: scheduleNotification_def Let_def arm_def)
  have rest: "scheduledNotifications (cancelNotification (id_r r) s) (id_r r) = None"
    "set (timers (cancelNotification (id_r r) s)) \<subseteq> set (timers s)"
    "nextHandle (cancelNotification (id_r r) s) = nextHandle s"
    "shown (cancelNotification (id_r r) s) = shown s"
    by (auto simp: cancelNotification_def clearTimeout_def Let_def split: option.splits)
  from ret rest show ?thesis by simp
qed

theorem schedule_incomplete_noop_witness:
  "scheduleNotification (fixedZone 0) 1000 exactWithoutTime initialScheduler
     = Some initialScheduler"
proof -
  have h1: "triggerType exactWithoutTime = Time"
    by (simp add: exactWithoutTime_def timeReminder_def)
  have h2: "(triggerTimeType exactWithoutTime = Some Interval
        \<and> (interval exactWithoutTime = None \<or> intervalUnit exactWithoutTime = None))
      \<or> (triggerTimeType exactWithoutTime = Some Exact \<and> timeOfDay exactWithoutTime = None)"
    by (simp add: exactWithoutTime_def timeReminder_def)
  have c: "cancelNotification (id_r exactWithoutTime) initialScheduler = initialScheduler"
    by (simp add: cancelNotification_def initialScheduler_def)
  show ?thesis
    using schedule_incomplete_noop [OF h1 h2, of "fixedZone 0" 1000 initialScheduler]
    by (simp add: c)
qed

subsection \<open>Exact mode, recurring\<close>

text \<open>
  The claim C1 as stated fails when the next occurrence lies beyond the range of
  \<open>Date\<close> (8.64e15 ms from the epoch): \<open>setTime\<close> then makes the date invalid, the
  loop stops, and the target and the delay are NaN. For "at 09:00, then every
  200,000,000 days", scheduled at 13:53:20 UTC on 1 January 1970, today's occurrence
  (09:00) has passed, no target is computed and a timer with the delay NaN is armed.
\<close>

theorem exact_recurring_range_counterexample:
  "triggerType nineEveryAeon = Time
   \<and> triggerTimeType nineEveryAeon = Some Exact
   \<and> isRecurring nineEveryAeon = Some True
   \<and> timeOfDay nineEveryAeon = Some ''09:00''
   \<and> interval nineEveryAeon = Some (Num 200000000)
   \<and> intervalUnit nineEveryAeon = Some Days
   \<and> todayOccurrence (fixedZone 0) 50000000 ''09:00'' = Num 32400000
   \<and> (32400000::int) \<le> 50000000
   \<and> exactTarget (fixedZone 0) 50000000 nineEveryAeon ''09:00'' = Some NaN
   \<and> scheduleNotification (fixedZone 0) 50000000 nineEveryAeon initialScheduler =
       Some \<lparr>scheduledNotifications = [''r7'' \<mapsto> 1],
             timers = [\<lparr>handle = 1, callbackReminder = nineEveryAeon, delay = NaN\<rparr>],
             nextHandle = 2, shown = []\<rparr>"
proof -
  have f: "triggerType nineEveryAeon = Time"
    "triggerTimeType nineEveryAeon = Some Exact"
    "isRecurring nineEveryAeon = Some True"
    "timeOfDay nineEveryAeon = Some ''09:00''"
    "interval nineEveryAeon = Some (Num 200000000)"
    "intervalUnit nineEveryAeon = Some Days"
    "id_r nineEveryAeon = ''r7''"
    by (simp_all add: nineEveryAeon_def timeReminder_def)
  have occ: "todayOccurrence (fixedZone 0) 50000000 ''09:00'' = Num 32400000"
    by code_simp
  have ms: "getIntervalMilliseconds (Num 200000000) Days = Num 17280000000000000"
    by code_simp
  have loop: "advance_while (Num 17280000000000000) 50000000 (Num 32400000) = Some NaN"
    by (subst advance_while_Num) simp_all
  have tgt: "exactTarget (fixedZone 0) 50000000 nineEveryAeon ''09:00'' = Some NaN"
    using f
    by (simp add: exactTarget_def Let_def occ ms loop or_num_def or_unit_def
        del: getIntervalMilliseconds.simps)
  have sched: "scheduleNotification (fixedZone 0) 50000000 nineEveryAeon initialScheduler =
       Some \<lparr>scheduledNotifications = [''r7'' \<mapsto> 1],
             timers = [\<lparr>handle = 1, callbackReminder = nineEveryAeon, delay = NaN\<rparr>],
             nextHandle = 2, shown = []\<rparr>"
    using f tgt
    by (simp add: scheduleNotification_def arm_def setTimeout_def Let_def
        cancelNotification_def initialScheduler_def)
  from f occ tgt sched show ?thesis by simp
qed

text \<open>
  Claim C1, amended. For a Time reminder in Exact mode with \<open>isRecurring = true\<close>, an
  interval \<open>n > 0\<close> and a unit among Minutes, Hours and Days, with \<open>ms = n\<close> times
  the unit's milliseconds at most 9,007,199,254,740,991 (\<open>2^53 - 1\<close>), whose
  occurrence of today \<open>t0\<close> is not in the future (\<open>t0 \<le> now\<close>): let \<open>target\<close>
  be the smallest instant \<open>t0 + k * ms\<close>, \<open>k\<close> whole, strictly after \<open>now\<close>. If
  \<open>target\<close> is within the range of \<open>Date\<close> (at most 8.64e15 ms after the epoch),
  the loop ends and the computed target is \<open>target\<close>: it is \<open>t0\<close> plus a positive
  whole multiple of \<open>ms\<close>, it is strictly after \<open>now\<close>, and no instant
  \<open>t0 + j * ms\<close> strictly after \<open>now\<close> is earlier. The timer is armed with the
  delay \<open>target - now\<close>.
\<close>

theorem exact_recurring_next_occurrence:
  assumes "triggerType r = Time" and "triggerTimeType r = Some Exact"
    and "timeOfDay r = Some tod" and "isRecurring r = Some True"
    and "interval r = Some (Num n)" and "0 < n" and "intervalUnit r = Some u"
    and "(u = Minutes \<and> ms = n * 60000) \<or> (u = Hours \<and> ms = n * 3600000)
           \<or> (u = Days \<and> ms = n * 86400000)"
    and "ms \<le> 9007199254740991"
    and "todayOccurrence tz now tod = Num t0" and "t0 \<le> now"
    and "target = t0 + ((now - t0) div ms + 1) * ms"
    and "target \<le> 8640000000000000"
    and "c = cancelNotification (id_r r) s"
  shows "exactTarget tz now r tod = Some (Num target)
     \<and> now < target
     \<and> (\<exists>k. 0 < k \<and> target = t0 + k * ms)
     \<and> (\<forall>j. now < t0 + j * ms \<longrightarrow> target \<le> t0 + j * ms)
     \<and> scheduleNotification tz now r s =
         Some (c\<lparr>scheduledNotifications := (scheduledNotifications c)(id_r r \<mapsto> nextHandle c),
                timers := timers c @
                  [\<lparr>handle = nextHandle c, callbackReminder = r, delay = Num (target - now)\<rparr>],
                nextHandle := Suc (nextHandle c)\<rparr>)"
proof -
  have ms: "0 < ms" using assms(6,8) by auto
  have im: "getIntervalMilliseconds (Num n) u = Num ms"
    using assms(6,8,9) by (rule getIntervalMilliseconds_exact)
  have tu: "truthy_unit (Some u)" using assms(8) by auto
  have lo: "- 8640000000000000 \<le> t0"
    using todayOccurrence_range [OF assms(10)] by simp
  have fut: "now < target"
    using next_multiple_after [OF ms, of "now - t0"] assms(12) by simp
  have clip: "TimeClip (Num target) = Num target"
    using assms(13) fut assms(11) lo by simp
  have loop: "advance_while (Num ms) now (Num t0) = Some (Num target)"
    using advance_while_Num [OF ms lo, of now] assms(11) clip
    by (simp add: assms(12))
  have tgt: "exactTarget tz now r tod = Some (Num target)"
    using assms(4,5,6,7,10,11) im tu ms loop
    by (simp add: exactTarget_def Let_def or_num_def or_unit_def
        del: getIntervalMilliseconds.simps)
  have q0: "0 \<le> (now - t0) div ms"
    using assms(11) ms by (simp add: pos_imp_zdiv_nonneg_iff)
  have mult: "\<exists>k. 0 < k \<and> target = t0 + k * ms"
    using assms(12) q0 by (intro exI [of _ "(now - t0) div ms + 1"]) simp
  have least: "\<forall>j. now < t0 + j * ms \<longrightarrow> target \<le> t0 + j * ms"
  proof (intro allI impI)
    fix j assume "now < t0 + j * ms"
    then have "now - t0 < j * ms" by simp
    from next_multiple_least [OF ms this] show "target \<le> t0 + j * ms"
      using assms(12) by simp
  qed
  have "target - now \<le> ms"
    using next_multiple_step [OF ms, of "now - t0"] assms(11,12) by simp
  then have "\<bar>target - now\<bar> \<le> 9007199254740991" using fut assms(9) by simp
  then have d: "js_sub (Num target) (Num now) = Num (target - now)" by (rule js_sub_exact)
  have ne: "tod \<noteq> []"
    using assms(10) todayOccurrence_empty by auto
  have pos: "\<not> js_le (Num (target - now)) (Num 0)" using fut by simp
  have sched: "scheduleNotification tz now r s =
         Some (c\<lparr>scheduledNotifications := (scheduledNotifications c)(id_r r \<mapsto> nextHandle c),
                timers := timers c @
                  [\<lparr>handle = nextHandle c, callbackReminder = r, delay = Num (target - now)\<rparr>],
                nextHandle := Suc (nextHandle c)\<rparr>)"
    using assms(1,2,3,14) ne tgt pos
    by (simp add: scheduleNotification_def arm_def setTimeout_def Let_def d del: js_sub.simps)
  from tgt fut mult least sched show ?thesis by blast
qed

theorem exact_recurring_next_occurrence_witness:
  "scheduleNotification (fixedZone 0) 50000000 nineEveryTwoHours initialScheduler =
   Some \<lparr>scheduledNotifications = [''r3'' \<mapsto> 1],
         timers = [\<lparr>handle = 1, callbackReminder = nineEveryTwoHours, delay = Num 4000000\<rparr>],
         nextHandle = 2, shown = []\<rparr>"
proof -
  have h1: "triggerType nineEveryTwoHours = Time"
    and h2: "triggerTimeType nineEveryTwoHours = Some Exact"
    and h3: "timeOfDay nineEveryTwoHours = Some ''09:00''"
    and h4: "isRecurring nineEveryTwoHours = Some True"
    and h5: "interval nineEveryTwoHours = Some (Num 2)"
    and h7: "intervalUnit nineEveryTwoHours = Some Hours"
    and i: "id_r nineEveryTwoHours = ''r3''"
    by (simp_all add: nineEveryTwoHours_def timeReminder_def)
  have h6: "(0::int) < 2" by simp
  have h8: "(Hours = Minutes \<and> (7200000::int) = 2 * 60000)
      \<or> (Hours = Hours \<and> (7200000::int) = 2 * 3600000)
      \<or> (Hours = Days \<and> (7200000::int) = 2 * 86400000)" by simp
  have h9: "(7200000::int) \<le> 9007199254740991" by simp
  have h10: "todayOccurrence (fixedZone 0) 50000000 ''09:00'' = Num 32400000"
    by code_simp
  have h11: "(32400000::int) \<le> 50000000" by simp
  have h12: "(54000000::int) = 32400000 + ((50000000 - 32400000) div 7200000 + 1) * 7200000"
    by simp
  have h13: "(54000000::int) \<le> 8640000000000000" by simp
  have h14: "initialScheduler = cancelNotification (id_r nineEveryTwoHours) initialScheduler"
    by (simp add: cancelNotification_def initialScheduler_def)
  show ?thesis
    using exact_recurring_next_occurrence [OF h1 h2 h3 h4 h5 h6 h7 h8 h9 h10 h11 h12 h13 h14]
    by (simp add: i initialScheduler_def)
qed

subsection \<open>Exact mode, one-shot\<close>





subsection \<open>Exact mode, a time of day that is not a number\<close>

text \<open>
  Claim C10. There are inputs for which the guard \<open>delay <= 0\<close> does not stop the
  call: a Time reminder in Exact mode whose time of day is \<open>"noon"\<close>. Its hours and
  minutes are NaN, so the target and the delay are NaN; the comparison of NaN with 0 is
  false, and the call arms a timer whose delay is NaN, which the window treats as 0. It
  does not return early.
\<close>

theorem exact_unparsable_time_arms:
  assumes "triggerType r = Time" and "triggerTimeType r = Some Exact"
    and "timeOfDay r = Some ''noon''"
    and "c = cancelNotification (id_r r) s"
  shows "todayOccurrence tz now ''noon'' = NaN
     \<and> exactTarget tz now r ''noon'' = Some NaN
     \<and> js_sub NaN (Num now) = NaN
     \<and> \<not> js_le NaN (Num 0)
     \<and> timeoutMilliseconds NaN = 0
     \<and> scheduleNotification tz now r s =
         Some (c\<lparr>scheduledNotifications := (scheduledNotifications c)(id_r r \<mapsto> nextHandle c),
                timers := timers c @ [\<lparr>handle = nextHandle c, callbackReminder = r, delay = NaN\<rparr>],
                nextHandle := Suc (nextHandle c)\<rparr>)"
proof -
  have hours: "Number_js ''noon'' = NotANumber"
    by code_simp
  have occ: "todayOccurrence tz now ''noon'' = NaN"
    by (simp add: todayOccurrence_def hours element_or_undefined_def MakeTime_def)
  have tgt: "exactTarget tz now r ''noon'' = Some NaN"
    using occ by (simp add: exactTarget_def Let_def)
  have sched: "scheduleNotification tz now r s =
         Some (c\<lparr>scheduledNotifications := (scheduledNotifications c)(id_r r \<mapsto> nextHandle c),
                timers := timers c @ [\<lparr>handle = nextHandle c, callbackReminder = r, delay = NaN\<rparr>],
                nextHandle := Suc (nextHandle c)\<rparr>)"
    using assms tgt
    by (simp add: scheduleNotification_def arm_def setTimeout_def Let_def)
  from occ tgt sched show ?thesis by simp
qed

theorem exact_unparsable_time_arms_witness:
  "scheduleNotification (fixedZone 0) 32700000 atNoon initialScheduler =
   Some \<lparr>scheduledNotifications = [''r6'' \<mapsto> 1],
         timers = [\<lparr>handle = 1, callbackReminder = atNoon, delay = NaN\<rparr>],
         nextHandle = 2, shown = []\<rparr>"
proof -
  have h1: "triggerType atNoon = Time"
    and h2: "triggerTimeType atNoon = Some Exact"
    and h3: "timeOfDay atNoon = Some ''noon''"
    and i: "id_r atNoon = ''r6''"
    by (simp_all add: atNoon_def timeReminder_def)
  have h4: "initialScheduler = cancelNotification (id_r atNoon) initialScheduler"
    by (simp add: cancelNotification_def initialScheduler_def)
  show ?thesis
    using exact_unparsable_time_arms [OF h1 h2 h3 h4, of "fixedZone 0" 32700000]
    by (simp add: i initialScheduler_def)
qed

subsection \<open>Every call returns\<close>

text \<open>
  The loop of the exact branch is entered with a positive step (a whole number of
  milliseconds or infinity) and with today's occurrence, a time value. Every round
  moves the date forward by at least one millisecond or makes it invalid, so the loop
  ends, and so does every call of \<open>scheduleNotification\<close> and every timer callback.
\<close>

lemma setHours_cases:
  "setHours tz d hour minute sec milli = NaN
   \<or> (\<exists>t. setHours tz d hour minute sec milli = Num t \<and> - 8640000000000000 \<le> t)"
proof (cases "setHours tz d hour minute sec milli")
  case (Num t)
  then show ?thesis using setHours_range [OF Num] by simp
next
  case PosInf
  then show ?thesis
    by (cases d; cases "MakeDate (Day (LocalTime tz (case d of Num t \<Rightarrow> t | _ \<Rightarrow> 0)))
          (MakeTime hour minute sec milli)") (simp_all split: if_splits)
next
  case NegInf
  then show ?thesis
    by (cases d; cases "MakeDate (Day (LocalTime tz (case d of Num t \<Rightarrow> t | _ \<Rightarrow> 0)))
          (MakeTime hour minute sec milli)") (simp_all split: if_splits)
next
  case NaN
  then show ?thesis by simp
qed

lemma advance_while_returns:
  assumes "js_gt intervalMs (Num 0)" and "d = NaN \<or> (\<exists>t. d = Num t \<and> - 8640000000000000 \<le> t)"
  shows "\<exists>y. advance_while intervalMs now d = Some y"
proof (cases "d = NaN")
  case True
  then show ?thesis by (simp add: advance_while_NaN)
next
  case False
  then obtain t where d: "d = Num t" and lo: "- 8640000000000000 \<le> t"
    using assms(2) by blast
  show ?thesis
  proof (cases intervalMs)
    case (Num ms)
    then have "0 < ms" using assms(1) by simp
    from advance_while_Num [OF this lo, of now] show ?thesis unfolding d Num by simp
  next
    case PosInf
    show ?thesis
      unfolding d PosInf
      by (subst advance_while.simps) (simp add: advance_while_NaN)
  next
    case NegInf
    then show ?thesis using assms(1) by simp
  next
    case NaN
    then show ?thesis using assms(1) by simp
  qed
qed

lemma exactTarget_returns: "\<exists>d. exactTarget tz now r tod = Some d"
proof -
  have c: "todayOccurrence tz now tod = NaN
      \<or> (\<exists>t. todayOccurrence tz now tod = Num t \<and> - 8640000000000000 \<le> t)"
    unfolding todayOccurrence_def Let_def by (rule setHours_cases)
  show ?thesis
    using advance_while_returns [OF _ c]
    by (simp add: exactTarget_def Let_def del: getIntervalMilliseconds.simps)
qed

lemma scheduleNotification_returns: "\<exists>s'. scheduleNotification tz now r s = Some s'"
proof -
  obtain d where "exactTarget tz now r (the (timeOfDay r)) = Some d"
    using exactTarget_returns by blast
  then show ?thesis by (simp add: scheduleNotification_def Let_def)
qed

lemma timerFires_returns: "\<exists>s'. timerFires tz now h s = Some s'"
  using scheduleNotification_returns
  by (simp add: timerFires_def Let_def split: option.splits)

subsection \<open>One timer per reminder\<close>

lemma sched_inv_initial: "sched_inv initialScheduler"
  by (simp add: sched_inv_def initialScheduler_def)

lemma filter_same_key_short:
  "distinct (map f xs) \<Longrightarrow> \<forall>x \<in> set xs. P x \<longrightarrow> f x = c \<Longrightarrow> length (filter P xs) \<le> 1"
proof (induction xs)
  case Nil
  then show ?case by simp
next
  case (Cons x xs)
  show ?case
  proof (cases "P x")
    case False
    with Cons show ?thesis by simp
  next
    case True
    then have fx: "f x = c" using Cons.prems(2) by simp
    have "filter P xs = []"
    proof (rule ccontr)
      assume "filter P xs \<noteq> []"
      then obtain y where y: "y \<in> set xs" "P y"
        by (metis filter_False)
      then have "f y = c" using Cons.prems(2) by simp
      with fx y(1) Cons.prems(1) show False by (auto simp: image_iff)
    qed
    with True show ?thesis by simp
  qed
qed

lemma sched_inv_live_short:
  assumes "sched_inv s"
  shows "length (liveTimers i s) \<le> 1"
proof -
  have d: "distinct (map handle (timers s))" using assms by (simp add: sched_inv_def)
  show ?thesis
  proof (cases "scheduledNotifications s i")
    case None
    then have "liveTimers i s = []"
      using assms by (auto simp: sched_inv_def liveTimers_def filter_empty_conv)
    then show ?thesis by simp
  next
    case (Some h)
    then have "\<forall>t \<in> set (timers s). id_r (callbackReminder t) = i \<longrightarrow> handle t = h"
      using assms by (auto simp: sched_inv_def)
    from filter_same_key_short [OF d this] show ?thesis by (simp add: liveTimers_def)
  qed
qed

lemma cancel_no_entry:
  "scheduledNotifications s i = None \<Longrightarrow> cancelNotification i s = s"
  by (simp add: cancelNotification_def)

lemma cancel_entry: "scheduledNotifications (cancelNotification i s) i = None"
  by (simp add: cancelNotification_def clearTimeout_def Let_def split: option.splits)

lemma same_handle_same_timer:
  assumes "sched_inv s" and "t \<in> set (timers s)" and "t' \<in> set (timers s)"
    and "handle t = handle t'"
  shows "t = t'"
proof -
  have "inj_on handle (set (timers s))"
    using assms(1) by (simp add: sched_inv_def distinct_map)
  then show ?thesis using assms(2,3,4) by (meson inj_onD)
qed

lemma sched_invI:
  assumes "\<And>t. t \<in> set (timers s) \<Longrightarrow>
             scheduledNotifications s (id_r (callbackReminder t)) = Some (handle t)"
    and "\<And>t. t \<in> set (timers s) \<Longrightarrow> handle t < nextHandle s"
    and "\<And>i h. scheduledNotifications s i = Some h \<Longrightarrow>
             \<exists>t \<in> set (timers s). handle t = h \<and> id_r (callbackReminder t) = i"
    and "distinct (map handle (timers s))"
  shows "sched_inv s"
  using assms unfolding sched_inv_def by blast

lemma sched_inv_entry:
  assumes "sched_inv s" and "scheduledNotifications s i = Some h"
  shows "\<exists>t \<in> set (timers s). handle t = h \<and> id_r (callbackReminder t) = i"
  using assms unfolding sched_inv_def by blast

lemma sched_inv_timer:
  assumes "sched_inv s" and "t \<in> set (timers s)"
  shows "scheduledNotifications s (id_r (callbackReminder t)) = Some (handle t)"
    and "handle t < nextHandle s"
  using assms unfolding sched_inv_def by blast+

lemma cancel_inv:
  assumes "sched_inv s"
  shows "sched_inv (cancelNotification i s)"
proof (cases "scheduledNotifications s i")
  case None
  then show ?thesis using assms by (simp add: cancelNotification_def)
next
  case (Some h)
  have c: "cancelNotification i s =
      s\<lparr>timers := filter (\<lambda>t. handle t \<noteq> h) (timers s),
        scheduledNotifications := (scheduledNotifications s)(i := None)\<rparr>"
    using Some by (simp add: cancelNotification_def clearTimeout_def Let_def)
  have a: "\<forall>t \<in> set (timers s). handle t \<noteq> h \<longrightarrow>
             id_r (callbackReminder t) \<noteq> i
             \<and> scheduledNotifications s (id_r (callbackReminder t)) = Some (handle t)
             \<and> handle t < nextHandle s"
    using assms Some by (auto simp: sched_inv_def)
  have b: "\<forall>j k. j \<noteq> i \<longrightarrow> scheduledNotifications s j = Some k \<longrightarrow>
             (\<exists>t \<in> set (timers s). handle t \<noteq> h \<and> handle t = k \<and> id_r (callbackReminder t) = j)"
  proof (intro allI impI)
    fix j k assume j: "j \<noteq> i" and k: "scheduledNotifications s j = Some k"
    from sched_inv_entry [OF assms k] obtain t where t: "t \<in> set (timers s)" "handle t = k"
      "id_r (callbackReminder t) = j"
      by blast
    have "k \<noteq> h"
    proof
      assume "k = h"
      from sched_inv_entry [OF assms Some] obtain t' where t': "t' \<in> set (timers s)"
        "handle t' = h" "id_r (callbackReminder t') = i"
        by blast
      from same_handle_same_timer [OF assms t(1) t'(1)] t(2) t'(2) \<open>k = h\<close> have "t = t'" by simp
      with t(3) t'(3) j show False by simp
    qed
    with t show "\<exists>t \<in> set (timers s). handle t \<noteq> h \<and> handle t = k \<and> id_r (callbackReminder t) = j"
      by auto
  qed
  have d: "distinct (map handle (timers s))" using assms by (simp add: sched_inv_def)
  show ?thesis
    unfolding c
  proof (rule sched_invI)
    fix t
    assume "t \<in> set (timers (s\<lparr>timers := filter (\<lambda>t. handle t \<noteq> h) (timers s),
        scheduledNotifications := (scheduledNotifications s)(i := None)\<rparr>))"
    then have t: "t \<in> set (timers s)" "handle t \<noteq> h" by simp_all
    with a show "scheduledNotifications (s\<lparr>timers := filter (\<lambda>t. handle t \<noteq> h) (timers s),
        scheduledNotifications := (scheduledNotifications s)(i := None)\<rparr>)
        (id_r (callbackReminder t)) = Some (handle t)" by simp
    from t a show "handle t < nextHandle (s\<lparr>timers := filter (\<lambda>t. handle t \<noteq> h) (timers s),
        scheduledNotifications := (scheduledNotifications s)(i := None)\<rparr>)" by simp
  next
    fix j k
    assume "scheduledNotifications (s\<lparr>timers := filter (\<lambda>t. handle t \<noteq> h) (timers s),
        scheduledNotifications := (scheduledNotifications s)(i := None)\<rparr>) j = Some k"
    then have "j \<noteq> i" "scheduledNotifications s j = Some k"
      by (simp_all split: if_splits)
    with b obtain t where "t \<in> set (timers s)" "handle t \<noteq> h" "handle t = k"
      "id_r (callbackReminder t) = j" by blast
    then show "\<exists>t \<in> set (timers (s\<lparr>timers := filter (\<lambda>t. handle t \<noteq> h) (timers s),
        scheduledNotifications := (scheduledNotifications s)(i := None)\<rparr>)).
        handle t = k \<and> id_r (callbackReminder t) = j" by auto
  next
    show "distinct (map handle (timers (s\<lparr>timers := filter (\<lambda>t. handle t \<noteq> h) (timers s),
        scheduledNotifications := (scheduledNotifications s)(i := None)\<rparr>)))"
      using d by (simp add: distinct_map_filter)
  qed
qed

lemma cancel_live:
  assumes "sched_inv s"
  shows "liveTimers i (cancelNotification i s) = []"
proof -
  have "sched_inv (cancelNotification i s)" using assms by (rule cancel_inv)
  with cancel_entry [of i s] show ?thesis
    by (auto simp: sched_inv_def liveTimers_def filter_empty_conv)
qed

lemma arm_unarmed: "js_le d (Num 0) \<Longrightarrow> arm r d s = s"
  by (simp add: arm_def)

lemma arm_armed:
  "\<not> js_le d (Num 0) \<Longrightarrow>
   arm r d s =
     s\<lparr>timers := timers s @ [\<lparr>handle = nextHandle s, callbackReminder = r, delay = d\<rparr>],
       nextHandle := Suc (nextHandle s),
       scheduledNotifications := (scheduledNotifications s)(id_r r \<mapsto> nextHandle s)\<rparr>"
  by (simp add: arm_def setTimeout_def)

lemma arm_inv:
  assumes "sched_inv s" and "scheduledNotifications s (id_r r) = None"
  shows "sched_inv (arm r d s)"
proof (cases "js_le d (Num 0)")
  case True
  then show ?thesis using assms(1) by (simp add: arm_unarmed)
next
  case False
  have old: "\<And>t. t \<in> set (timers s) \<Longrightarrow>
      id_r (callbackReminder t) \<noteq> id_r r \<and> handle t < nextHandle s
      \<and> scheduledNotifications s (id_r (callbackReminder t)) = Some (handle t)"
    using sched_inv_timer [OF assms(1)] assms(2) by fastforce
  show ?thesis
    unfolding arm_armed [OF False]
  proof (rule sched_invI)
    fix t
    assume "t \<in> set (timers (s\<lparr>timers := timers s @ [\<lparr>handle = nextHandle s, callbackReminder = r, delay = d\<rparr>],
       nextHandle := Suc (nextHandle s),
       scheduledNotifications := (scheduledNotifications s)(id_r r \<mapsto> nextHandle s)\<rparr>))"
    then have t: "t \<in> set (timers s) \<or> t = \<lparr>handle = nextHandle s, callbackReminder = r, delay = d\<rparr>"
      by auto
    then show "scheduledNotifications (s\<lparr>timers := timers s @ [\<lparr>handle = nextHandle s, callbackReminder = r, delay = d\<rparr>],
       nextHandle := Suc (nextHandle s),
       scheduledNotifications := (scheduledNotifications s)(id_r r \<mapsto> nextHandle s)\<rparr>)
       (id_r (callbackReminder t)) = Some (handle t)"
      using old by auto
    from t show "handle t < nextHandle (s\<lparr>timers := timers s @ [\<lparr>handle = nextHandle s, callbackReminder = r, delay = d\<rparr>],
       nextHandle := Suc (nextHandle s),
       scheduledNotifications := (scheduledNotifications s)(id_r r \<mapsto> nextHandle s)\<rparr>)"
      using old by (auto simp: less_Suc_eq)
  next
    fix i h
    assume "scheduledNotifications (s\<lparr>timers := timers s @ [\<lparr>handle = nextHandle s, callbackReminder = r, delay = d\<rparr>],
       nextHandle := Suc (nextHandle s),
       scheduledNotifications := (scheduledNotifications s)(id_r r \<mapsto> nextHandle s)\<rparr>) i = Some h"
    then have "(i = id_r r \<and> h = nextHandle s) \<or> (i \<noteq> id_r r \<and> scheduledNotifications s i = Some h)"
      by (auto split: if_splits)
    then show "\<exists>t \<in> set (timers (s\<lparr>timers := timers s @ [\<lparr>handle = nextHandle s, callbackReminder = r, delay = d\<rparr>],
       nextHandle := Suc (nextHandle s),
       scheduledNotifications := (scheduledNotifications s)(id_r r \<mapsto> nextHandle s)\<rparr>)).
       handle t = h \<and> id_r (callbackReminder t) = i"
      using sched_inv_entry [OF assms(1)] by fastforce
  next
    have "nextHandle s \<notin> handle ` set (timers s)" using old by fastforce
    moreover have "distinct (map handle (timers s))" using assms(1) by (simp add: sched_inv_def)
    ultimately show "distinct (map handle (timers (s\<lparr>timers := timers s @ [\<lparr>handle = nextHandle s, callbackReminder = r, delay = d\<rparr>],
       nextHandle := Suc (nextHandle s),
       scheduledNotifications := (scheduledNotifications s)(id_r r \<mapsto> nextHandle s)\<rparr>)))"
      by simp
  qed
qed

lemma schedule_shape:
  assumes "scheduleNotification tz now r s = Some s'"
  shows "\<exists>d. s' = arm r d (cancelNotification (id_r r) s)"
proof -
  have z: "cancelNotification (id_r r) s = arm r (Num 0) (cancelNotification (id_r r) s)"
    by (simp add: arm_def)
  show ?thesis
    using assms z
    by (auto simp: scheduleNotification_def Let_def split: if_splits option.splits)
qed

lemma schedule_inv:
  assumes "sched_inv s" and "scheduleNotification tz now r s = Some s'"
  shows "sched_inv s'"
proof -
  from schedule_shape [OF assms(2)] obtain d
    where d: "s' = arm r d (cancelNotification (id_r r) s)" ..
  show ?thesis
    unfolding d using cancel_inv [OF assms(1)] cancel_entry by (rule arm_inv)
qed

lemma show_inv: "sched_inv (showNotification r s) = sched_inv s"
  by (simp add: sched_inv_def showNotification_def)

lemma fire_inv:
  assumes "sched_inv s" and "timerFires tz now h s = Some s'"
  shows "sched_inv s'"
proof (cases "find (\<lambda>t. handle t = h) (timers s)")
  case None
  then show ?thesis using assms by (simp add: timerFires_def)
next
  case (Some t)
  then have t: "t \<in> set (timers s)" "handle t = h"
    by (auto simp: find_Some_iff in_set_conv_nth)
  define r where "r = callbackReminder t"
  define s1 where "s1 = showNotification r (clearTimeout h s)"
  define s2 where "s2 = showNotification r (cancelNotification (id_r r) s)"
  have e: "scheduledNotifications s (id_r r) = Some h"
    using sched_inv_timer(1) [OF assms(1) t(1)] t(2) by (simp add: r_def)
  have c1: "cancelNotification (id_r r) s1 = s2"
    using e
    by (simp add: s1_def s2_def cancelNotification_def clearTimeout_def showNotification_def
        Let_def)
  have d1: "s1\<lparr>scheduledNotifications := (scheduledNotifications s1)(id_r r := None)\<rparr> = s2"
    using e
    by (simp add: s1_def s2_def cancelNotification_def clearTimeout_def showNotification_def
        Let_def)
  have i2: "sched_inv s2"
    unfolding s2_def show_inv using assms(1) by (rule cancel_inv)
  have n2: "scheduledNotifications s2 (id_r r) = None"
    by (simp add: s2_def showNotification_def cancel_entry)
  show ?thesis
  proof (cases "isRecurring r = Some True")
    case True
    then have "scheduleNotification tz now r s1 = Some s'"
      using assms(2) Some by (simp add: timerFires_def Let_def r_def s1_def)
    from schedule_shape [OF this] c1 obtain d where "s' = arm r d s2" by auto
    then show ?thesis using arm_inv [OF i2 n2] by simp
  next
    case False
    then have "s' = s1\<lparr>scheduledNotifications := (scheduledNotifications s1)(id_r r := None)\<rparr>"
      using assms(2) Some by (simp add: timerFires_def Let_def r_def s1_def)
    then show ?thesis using d1 i2 by simp
  qed
qed

lemma reachable_inv: "reachable s \<Longrightarrow> sched_inv s"
proof (induction rule: reachable.induct)
  case reachable_initial
  show ?case by (rule sched_inv_initial)
next
  case (reachable_schedule s tz now reminder s')
  then show ?case using schedule_inv by blast
next
  case (reachable_cancel s i)
  then show ?case by (simp add: cancel_inv)
next
  case (reachable_fire s tz now h s')
  then show ?case using fire_inv by blast
qed

lemma schedule_live:
  assumes "sched_inv s" and "scheduleNotification tz now r s = Some s'"
  shows "length (liveTimers (id_r r) s') = (if scheduledNotifications s' (id_r r) = None then 0 else 1)"
    and "\<forall>t \<in> set (liveTimers (id_r r) s'). handle t = nextHandle s \<and> callbackReminder t = r"
    and "\<forall>t \<in> set (timers s'). id_r (callbackReminder t) = id_r r \<longrightarrow> t \<notin> set (timers s)"
proof -
  define c where "c = cancelNotification (id_r r) s"
  from schedule_shape [OF assms(2)] obtain d where d: "s' = arm r d c"
    unfolding c_def ..
  have lc: "liveTimers (id_r r) c = []" unfolding c_def using assms(1) by (rule cancel_live)
  have nc: "scheduledNotifications c (id_r r) = None" unfolding c_def by (rule cancel_entry)
  have hc: "nextHandle c = nextHandle s"
    by (simp add: c_def cancelNotification_def clearTimeout_def Let_def split: option.splits)
  have bound: "\<forall>t \<in> set (timers s). handle t < nextHandle s"
    using sched_inv_timer(2) [OF assms(1)] by blast
  show "length (liveTimers (id_r r) s') = (if scheduledNotifications s' (id_r r) = None then 0 else 1)"
    using lc nc unfolding d
    by (cases "js_le d (Num 0)") (simp_all add: arm_unarmed arm_armed liveTimers_def)
  show "\<forall>t \<in> set (liveTimers (id_r r) s'). handle t = nextHandle s \<and> callbackReminder t = r"
    using lc hc unfolding d
    by (cases "js_le d (Num 0)") (auto simp: arm_unarmed arm_armed liveTimers_def)
  show "\<forall>t \<in> set (timers s'). id_r (callbackReminder t) = id_r r \<longrightarrow> t \<notin> set (timers s)"
    using lc hc bound unfolding d
    by (cases "js_le d (Num 0)")
      (auto simp: arm_unarmed arm_armed liveTimers_def filter_empty_conv)
qed

text \<open>
  Claim C7. In every state the scheduler can reach, each reminder id has at most one
  pending timeout. When \<open>scheduleNotification\<close> is called twice in succession for the
  same id, the timeout of the first call is no longer pending after the second, and the
  id has exactly one pending timeout if the second call armed one (the map then has an
  entry for the id) and none otherwise; that timeout is the one of the second call.
  \<open>cancelNotification\<close> for an id with no pending timeout leaves the whole state,
  and so the map, unchanged, and cancelling twice is the same as cancelling once.
\<close>

theorem one_live_timer_per_id:
  assumes "reachable s"
  shows "length (liveTimers i s) \<le> 1
     \<and> (scheduleNotification tz1 now1 r1 s = Some s1 \<longrightarrow>
        scheduleNotification tz2 now2 r2 s1 = Some s2 \<longrightarrow> id_r r2 = id_r r1 \<longrightarrow>
          length (liveTimers (id_r r1) s2)
            = (if scheduledNotifications s2 (id_r r1) = None then 0 else 1)
          \<and> (\<forall>t \<in> set (liveTimers (id_r r1) s2).
                handle t = nextHandle s1 \<and> callbackReminder t = r2)
          \<and> (\<forall>t \<in> set (liveTimers (id_r r1) s1). t \<notin> set (timers s2)))
     \<and> (liveTimers i s = [] \<longrightarrow> cancelNotification i s = s)
     \<and> cancelNotification i (cancelNotification i s) = cancelNotification i s"
proof -
  have inv: "sched_inv s" using assms by (rule reachable_inv)
  have one: "length (liveTimers i s) \<le> 1" using inv by (rule sched_inv_live_short)
  have twice: "length (liveTimers (id_r r1) s2)
            = (if scheduledNotifications s2 (id_r r1) = None then 0 else 1)
          \<and> (\<forall>t \<in> set (liveTimers (id_r r1) s2).
                handle t = nextHandle s1 \<and> callbackReminder t = r2)
          \<and> (\<forall>t \<in> set (liveTimers (id_r r1) s1). t \<notin> set (timers s2))"
    if a: "scheduleNotification tz1 now1 r1 s = Some s1"
      and b: "scheduleNotification tz2 now2 r2 s1 = Some s2" and c: "id_r r2 = id_r r1"
  proof -
    have inv1: "sched_inv s1" using inv a by (rule schedule_inv)
    note sl = schedule_live [OF inv1 b, unfolded c]
    have gone: "\<forall>t \<in> set (liveTimers (id_r r1) s1). t \<notin> set (timers s2)"
    proof
      fix t assume "t \<in> set (liveTimers (id_r r1) s1)"
      then have t: "t \<in> set (timers s1)" "id_r (callbackReminder t) = id_r r1"
        by (simp_all add: liveTimers_def)
      show "t \<notin> set (timers s2)"
      proof
        assume "t \<in> set (timers s2)"
        with sl(3) t(2) have "t \<notin> set (timers s1)" by blast
        with t(1) show False by simp
      qed
    qed
    from sl(1) sl(2) gone show ?thesis by (intro conjI)
  qed
  have noop: "cancelNotification i s = s" if "liveTimers i s = []"
  proof (cases "scheduledNotifications s i")
    case None
    then show ?thesis by (rule cancel_no_entry)
  next
    case (Some h)
    from sched_inv_entry [OF inv Some] obtain t where "t \<in> set (timers s)"
      "id_r (callbackReminder t) = i" by blast
    then have "t \<in> set (liveTimers i s)" by (simp add: liveTimers_def)
    with that show ?thesis by simp
  qed
  have idem: "cancelNotification i (cancelNotification i s) = cancelNotification i s"
    using cancel_entry by (rule cancel_no_entry)
  show ?thesis
  proof (intro conjI)
    show "length (liveTimers i s) \<le> 1" by (rule one)
    show "scheduleNotification tz1 now1 r1 s = Some s1 \<longrightarrow>
        scheduleNotification tz2 now2 r2 s1 = Some s2 \<longrightarrow> id_r r2 = id_r r1 \<longrightarrow>
          length (liveTimers (id_r r1) s2)
            = (if scheduledNotifications s2 (id_r r1) = None then 0 else 1)
          \<and> (\<forall>t \<in> set (liveTimers (id_r r1) s2).
                handle t = nextHandle s1 \<and> callbackReminder t = r2)
          \<and> (\<forall>t \<in> set (liveTimers (id_r r1) s1). t \<notin> set (timers s2))"
      using twice by (intro impI)
    show "liveTimers i s = [] \<longrightarrow> cancelNotification i s = s"
      using noop by (intro impI)
    show "cancelNotification i (cancelNotification i s) = cancelNotification i s"
      by (rule idem)
  qed
qed

theorem one_live_timer_per_id_witness:
  "scheduleNotification (fixedZone 0) 1000 everyTenMinutes initialScheduler =
     Some \<lparr>scheduledNotifications = [''r1'' \<mapsto> 1],
           timers = [\<lparr>handle = 1, callbackReminder = everyTenMinutes, delay = Num 600000\<rparr>],
           nextHandle = 2, shown = []\<rparr>
   \<and> scheduleNotification (fixedZone 0) 2000 everyTenMinutes
       \<lparr>scheduledNotifications = [''r1'' \<mapsto> 1],
        timers = [\<lparr>handle = 1, callbackReminder = everyTenMinutes, delay = Num 600000\<rparr>],
        nextHandle = 2, shown = []\<rparr> =
     Some \<lparr>scheduledNotifications = [''r1'' \<mapsto> 2],
           timers = [\<lparr>handle = 2, callbackReminder = everyTenMinutes, delay = Num 600000\<rparr>],
           nextHandle = 3, shown = []\<rparr>
   \<and> length (liveTimers ''r1''
        \<lparr>scheduledNotifications = [''r1'' \<mapsto> 2],
         timers = [\<lparr>handle = 2, callbackReminder = everyTenMinutes, delay = Num 600000\<rparr>],
         nextHandle = 3, shown = []\<rparr>) = 1
   \<and> cancelNotification ''r1'' initialScheduler = initialScheduler"
proof -
  define sA where "sA = \<lparr>scheduledNotifications = [''r1'' \<mapsto> (1::nat)],
        timers = [\<lparr>handle = 1, callbackReminder = everyTenMinutes, delay = Num 600000\<rparr>],
        nextHandle = 2, shown = []\<rparr>"
  define sB where "sB = \<lparr>scheduledNotifications = [''r1'' \<mapsto> (2::nat)],
        timers = [\<lparr>handle = 2, callbackReminder = everyTenMinutes, delay = Num 600000\<rparr>],
        nextHandle = 3, shown = []\<rparr>"
  have f: "triggerType everyTenMinutes = Time"
    "triggerTimeType everyTenMinutes = Some Interval"
    "interval everyTenMinutes = Some (Num 10)"
    "intervalUnit everyTenMinutes = Some Minutes"
    and i: "id_r everyTenMinutes = ''r1''"
    by (simp_all add: everyTenMinutes_def timeReminder_def)
  have a: "scheduleNotification (fixedZone 0) 1000 everyTenMinutes initialScheduler = Some sA"
    using f i
    by (simp add: scheduleNotification_def arm_def setTimeout_def Let_def toDouble_exact
        cancelNotification_def initialScheduler_def sA_def)
  have b: "scheduleNotification (fixedZone 0) 2000 everyTenMinutes sA = Some sB"
    using f i
    by (simp add: scheduleNotification_def arm_def setTimeout_def Let_def toDouble_exact
        cancelNotification_def clearTimeout_def sA_def sB_def)
  have l: "liveTimers ''r1'' initialScheduler = []"
    by (simp add: liveTimers_def initialScheduler_def)
  note T = one_live_timer_per_id [OF reachable_initial, where i = "''r1''"
      and ?tz1.0 = "fixedZone 0" and ?now1.0 = 1000 and ?r1.0 = everyTenMinutes and ?s1.0 = sA
      and ?tz2.0 = "fixedZone 0" and ?now2.0 = 2000 and ?r2.0 = everyTenMinutes and ?s2.0 = sB]
  from T a b have "length (liveTimers (id_r everyTenMinutes) sB)
      = (if scheduledNotifications sB (id_r everyTenMinutes) = None then 0 else 1)"
    by blast
  then have len: "length (liveTimers ''r1'' sB) = 1"
    by (simp add: i sB_def)
  from T l have c: "cancelNotification ''r1'' initialScheduler = initialScheduler"
    by blast
  from a b len c show ?thesis
    unfolding sA_def sB_def by (intro conjI)
qed

section \<open>Properties of the location service\<close>

subsection \<open>The distance formula on the sample positions\<close>

text \<open>
  Facts of the formula over the real numbers, used to place the sample positions: the
  centre of the fence is inside it, and the point 0.002 degrees to the north is not.
\<close>

lemma convex_unit:
  fixes A B s :: real
  assumes "0 \<le> A" "A \<le> 1" "0 \<le> B" "B \<le> 1" "0 \<le> s" "s \<le> 1"
  shows "0 \<le> A * (1 - s) + B * s" and "A * (1 - s) + B * s \<le> 1"
proof -
  show "0 \<le> A * (1 - s) + B * s" using assms by simp
  have "A * (1 - s) \<le> 1 * (1 - s)" using assms by (intro mult_right_mono) simp_all
  moreover have "B * s \<le> 1 * s" using assms by (intro mult_right_mono) simp_all
  ultimately show "A * (1 - s) + B * s \<le> 1" by simp
qed

lemma half_unit:
  fixes c :: real
  assumes "- 1 \<le> c" and "c \<le> 1"
  shows "0 \<le> (1 - c) / 2" "(1 - c) / 2 \<le> 1" "0 \<le> (1 + c) / 2" "(1 + c) / 2 \<le> 1"
  using assms by simp_all

lemma sin_half_squared: "sin (x / 2) * sin (x / 2) = (1 - cos x) / 2" for x :: real
  using cos_double_sin [of "x / 2"] by (simp add: power2_eq_square)

lemma cos_times_cos: "cos p * cos q = (cos (q - p) + cos (p + q)) / 2" for p q :: real
  by (simp add: cos_add cos_diff)

lemma haversine_a_bounds:
  "0 \<le> haversine_a lat1 lon1 lat2 lon2" "haversine_a lat1 lon1 lat2 lon2 \<le> 1"
proof -
  define p where "p = lat1 * pi / 180"
  define q where "q = lat2 * pi / 180"
  define s where "s = sin ((lon2 - lon1) * pi / 180 / 2) * sin ((lon2 - lon1) * pi / 180 / 2)"
  define A where "A = sin ((q - p) / 2) * sin ((q - p) / 2)"
  define B where "B = A + cos p * cos q"
  have d: "(lat2 - lat1) * pi / 180 = q - p" by (simp add: p_def q_def algebra_simps diff_divide_distrib)
  have a: "haversine_a lat1 lon1 lat2 lon2 = A * (1 - s) + B * s"
    unfolding haversine_a_def Let_def d
    by (simp add: A_def B_def s_def p_def q_def algebra_simps)
  have A: "A = (1 - cos (q - p)) / 2" unfolding A_def by (rule sin_half_squared)
  have B: "B = (1 + cos (p + q)) / 2" unfolding B_def A cos_times_cos by (simp add: field_simps)
  have A0: "0 \<le> A" and A1: "A \<le> 1"
    unfolding A by (rule half_unit [OF cos_ge_minus_one cos_le_one])+
  have B0: "0 \<le> B" and B1: "B \<le> 1"
    unfolding B by (rule half_unit [OF cos_ge_minus_one cos_le_one])+
  note A01 = A0 A1 and B01 = B0 B1
  have s01: "0 \<le> s" "s \<le> 1"
  proof -
    show "0 \<le> s" unfolding s_def by simp
    have "s = sin ((lon2 - lon1) * pi / 180 / 2) ^ 2" by (simp add: s_def power2_eq_square)
    also have "\<dots> \<le> 1" by (simp add: abs_square_le_1)
    finally show "s \<le> 1" .
  qed
  show "0 \<le> haversine_a lat1 lon1 lat2 lon2" unfolding a using A01 B01 s01 by (rule convex_unit)
  show "haversine_a lat1 lon1 lat2 lon2 \<le> 1" unfolding a using A01 B01 s01 by (rule convex_unit)
qed

lemma haversine_a_same: "haversine_a lat1 lon1 lat1 lon1 = 0"
  by (simp add: haversine_a_def)

lemma sin_half_swap:
  "sin ((y - x) * pi / 180 / 2) = - sin ((x - y) * pi / 180 / 2)" for x y :: real
proof -
  have "(y - x) * pi / 180 / 2 = - ((x - y) * pi / 180 / 2)"
    by (simp add: algebra_simps diff_divide_distrib)
  then show ?thesis by (simp only: sin_minus)
qed

lemma haversine_a_sym: "haversine_a lat1 lon1 lat2 lon2 = haversine_a lat2 lon2 lat1 lon1"
  unfolding haversine_a_def Let_def
  by (simp only: sin_half_swap [of lat1 lat2] sin_half_swap [of lon1 lon2]) simp

lemma atan2_arcsin:
  assumes "0 \<le> a" and "a \<le> 1"
  shows "atan2 (sqrt a) (sqrt (1 - a)) = arcsin (sqrt a)"
proof (cases "a = 1")
  case True
  then show ?thesis by (simp add: atan2_def)
next
  case False
  then have lt: "a < 1" using assms(2) by simp
  have x: "- 1 < sqrt a" "sqrt a < 1"
    using assms(1) lt by (simp_all add: less_le_trans [of "-1" 0] real_sqrt_lt_1_iff)
  have "arcsin (sqrt a) = arctan (sqrt a / sqrt (1 - (sqrt a)\<^sup>2))"
    using x by (rule arcsin_arctan)
  also have "(sqrt a)\<^sup>2 = a" using assms(1) by simp
  finally have "arcsin (sqrt a) = arctan (sqrt a / sqrt (1 - a))" .
  moreover have "0 < sqrt (1 - a)" using lt by simp
  ultimately show ?thesis by (simp add: atan2_def)
qed

lemma calculateDistance_arcsin:
  "calculateDistance lat1 lon1 lat2 lon2 =
     2 * 6371000 * arcsin (sqrt (haversine_a lat1 lon1 lat2 lon2))"
  using atan2_arcsin [OF haversine_a_bounds, of lat1 lon1 lat2 lon2]
  by (simp add: calculateDistance_def Let_def)

lemma calculateDistance_meridian:
  assumes "0 \<le> lat2 - lat1" and "lat2 - lat1 \<le> 180"
  shows "calculateDistance lat1 lon lat2 lon = 6371000 * ((lat2 - lat1) * pi / 180)"
proof -
  define x where "x = (lat2 - lat1) * pi / 180 / 2"
  have p: "0 \<le> pi / 360" by simp
  have "0 * (pi / 360) \<le> (lat2 - lat1) * (pi / 360)" using assms(1) p by (rule mult_right_mono)
  then have x0: "0 \<le> x" by (simp add: x_def)
  have "(lat2 - lat1) * (pi / 360) \<le> 180 * (pi / 360)" using assms(2) p by (rule mult_right_mono)
  then have x1: "x \<le> pi / 2" by (simp add: x_def)
  have s0: "0 \<le> sin x" using x0 x1 by (intro sin_ge_zero) (use pi_ge_zero in linarith)+
  have a: "haversine_a lat1 lon lat2 lon = (sin x)\<^sup>2"
    by (simp add: haversine_a_def Let_def x_def power2_eq_square)
  have "arcsin (sqrt ((sin x)\<^sup>2)) = arcsin (sin x)" using s0 by simp
  also have "\<dots> = x" using x0 x1 by (intro arcsin_sin) (use pi_ge_zero in linarith)+
  finally have e: "arcsin (sqrt ((sin x)\<^sup>2)) = x" .
  have "calculateDistance lat1 lon lat2 lon = 2 * 6371000 * x"
    unfolding calculateDistance_arcsin a e ..
  then show ?thesis by (simp add: x_def)
qed

lemma calculateDistance_same: "calculateDistance lat1 lon1 lat1 lon1 = 0"
  by (simp add: calculateDistance_arcsin haversine_a_same)

subsection \<open>Transitions of the geofence\<close>

lemma atHome_inside: "isInsideOf atHome homeFence"
  by (simp add: isInsideOf_def atHome_def homeFence_def calculateDistance_same)

lemma nearHome_outside: "\<not> isInsideOf nearHome homeFence"
proof -
  have "calculateDistance 0 0 (1 / 500) 0 = 6371000 * ((1 / 500 - 0) * pi / 180)"
    by (rule calculateDistance_meridian) simp_all
  moreover have "calculateDistance (1 / 500) 0 0 0 = calculateDistance 0 0 (1 / 500) 0"
    unfolding calculateDistance_arcsin by (simp only: haversine_a_sym [of "1 / 500" 0 0 0])
  moreover have "100 < 6371000 * ((1 / 500 - 0) * pi / 180)"
    using pi_ge_two by simp
  ultimately show ?thesis
    by (simp add: isInsideOf_def nearHome_def homeFence_def)
qed

lemma checkReminder_effect:
  "triggered (checkReminder position r s)
     = triggered s @ (if fires position (locationStates s) r then [r] else [])"
  "locationStates (checkReminder position r s)
     = (case location r of
          None \<Rightarrow> locationStates s
        | Some loc \<Rightarrow> (locationStates s)(id_r r \<mapsto> isInsideOf position loc))"
  "watchId (checkReminder position r s) = watchId s"
  "watches (checkReminder position r s) = watches s"
  "pendingReads (checkReminder position r s) = pendingReads s"
  "alerts (checkReminder position r s) = alerts s"
  by (auto simp: checkReminder_def fires_def onTrigger_def Let_def split: option.splits)

lemma fires_other_id:
  assumes "id_r x \<noteq> i"
  shows "fires position (states(i \<mapsto> b)) x = fires position states x"
  using assms by (simp add: fires_def split: option.splits)

lemma checkReminders_triggered:
  assumes "distinct (map id_r reminders)"
  shows "triggered (checkReminders position reminders s)
           = triggered s @ filter (fires position (locationStates s)) reminders"
  using assms
proof (induction reminders arbitrary: s)
  case Nil
  show ?case by simp
next
  case (Cons r rs)
  have d: "distinct (map id_r rs)" and n: "\<forall>x \<in> set rs. id_r x \<noteq> id_r r"
    using Cons.prems by (auto simp: image_iff)
  have same: "filter (fires position (locationStates (checkReminder position r s))) rs
                = filter (fires position (locationStates s)) rs"
  proof (rule filter_cong [OF refl])
    fix x assume "x \<in> set rs"
    with n have "id_r x \<noteq> id_r r" by simp
    then show "fires position (locationStates (checkReminder position r s)) x
                 = fires position (locationStates s) x"
      by (simp add: checkReminder_effect(2) fires_other_id split: option.splits)
  qed
  show ?case
    using Cons.IH [OF d, of "checkReminder position r s"] same
    by (simp add: checkReminder_effect(1))
qed

lemma checkReminders_states_other:
  assumes "i \<notin> id_r ` {r \<in> set reminders. location r \<noteq> None}"
  shows "locationStates (checkReminders position reminders s) i = locationStates s i"
  using assms
proof (induction reminders arbitrary: s)
  case Nil
  show ?case by simp
next
  case (Cons r rs)
  have "i \<notin> id_r ` {x \<in> set rs. location x \<noteq> None}" using Cons.prems by auto
  from Cons.IH [OF this, of "checkReminder position r s"] Cons.prems show ?case
    by (auto simp: checkReminder_effect(2) split: option.splits)
qed

lemma checkReminders_states:
  assumes "distinct (map id_r reminders)" and "r \<in> set reminders" and "location r = Some loc"
  shows "locationStates (checkReminders position reminders s) (id_r r)
           = Some (isInsideOf position loc)"
  using assms
proof (induction reminders arbitrary: s)
  case Nil
  then show ?case by simp
next
  case (Cons x xs)
  have d: "distinct (map id_r xs)" and n: "id_r x \<notin> id_r ` set xs"
    using Cons.prems(1) by auto
  show ?case
  proof (cases "r \<in> set xs")
    case True
    from Cons.IH [OF d True Cons.prems(3)] show ?thesis by simp
  next
    case False
    then have rx: "r = x" using Cons.prems(2) by simp
    have "id_r x \<notin> id_r ` {y \<in> set xs. location y \<noteq> None}" using n by auto
    from checkReminders_states_other [OF this]
    show ?thesis
      using Cons.prems(3) by (simp add: rx checkReminder_effect(2))
  qed
qed

lemma arriveHome_fields:
  "location arriveHome = Some homeFence" "id_r arriveHome = ''h''"
  "triggerOn homeFence = OnEnter"
  by (simp_all add: arriveHome_def homeFence_def)

text \<open>
  Claim C5. When the ids of the watched reminders are distinct, one position sample
  fires exactly the reminders for which \<open>isInside\<close> of the sample differs from the
  stored state and the change goes in the configured direction (entering for OnEnter,
  leaving for OnLeave): each once, in the order of the list. Whether its trigger fired
  or not, the stored state of every reminder with a location is \<open>isInside\<close> of the
  sample afterwards. So at the next sample a reminder fires exactly when \<open>isInside\<close>
  changed between the two samples in its configured direction: a change in the other
  direction is not fired later, and the opposite change is still seen.
\<close>

theorem checkReminders_transitions:
  assumes "distinct (map id_r reminders)"
  shows "triggered (checkReminders position reminders s)
           = triggered s @ filter (fires position (locationStates s)) reminders
     \<and> (\<forall>r \<in> set reminders. \<forall>loc. location r = Some loc \<longrightarrow>
           locationStates (checkReminders position reminders s) (id_r r)
             = Some (isInsideOf position loc))
     \<and> triggered (checkReminders position2 reminders (checkReminders position reminders s))
           = triggered (checkReminders position reminders s)
               @ filter (crossing position position2) reminders"
proof -
  define s' where "s' = checkReminders position reminders s"
  have first: "triggered s' = triggered s @ filter (fires position (locationStates s)) reminders"
    unfolding s'_def using assms by (rule checkReminders_triggered)
  have stored: "\<forall>r \<in> set reminders. \<forall>loc. location r = Some loc \<longrightarrow>
           locationStates s' (id_r r) = Some (isInsideOf position loc)"
    unfolding s'_def using checkReminders_states [OF assms] by blast
  have "filter (fires position2 (locationStates s')) reminders
          = filter (crossing position position2) reminders"
  proof (rule filter_cong [OF refl])
    fix r assume r: "r \<in> set reminders"
    show "fires position2 (locationStates s') r = crossing position position2 r"
    proof (cases "location r")
      case None
      then show ?thesis by (simp add: fires_def crossing_def)
    next
      case (Some loc)
      with stored r have "locationStates s' (id_r r) = Some (isInsideOf position loc)" by blast
      with Some show ?thesis by (simp add: fires_def crossing_def)
    qed
  qed
  with checkReminders_triggered [OF assms, of position2 s']
  have second: "triggered (checkReminders position2 reminders s')
           = triggered s' @ filter (crossing position position2) reminders"
    by simp
  from first stored second show ?thesis unfolding s'_def by (intro conjI)
qed

theorem checkReminders_transitions_witness:
  "triggered (checkReminders atHome [arriveHome]
       (initialTracker\<lparr>locationStates := [''h'' \<mapsto> False]\<rparr>)) = [arriveHome]
   \<and> locationStates (checkReminders atHome [arriveHome]
       (initialTracker\<lparr>locationStates := [''h'' \<mapsto> False]\<rparr>)) ''h'' = Some True
   \<and> triggered (checkReminders atHome [arriveHome] (checkReminders atHome [arriveHome]
       (initialTracker\<lparr>locationStates := [''h'' \<mapsto> False]\<rparr>))) = [arriveHome]"
proof -
  define s where "s = initialTracker\<lparr>locationStates := [''h'' \<mapsto> False]\<rparr>"
  have d: "distinct (map id_r [arriveHome])" by simp
  note T = checkReminders_transitions [OF d, of atHome s atHome]
  have f: "fires atHome (locationStates s) arriveHome"
    by (simp add: fires_def arriveHome_fields atHome_inside s_def)
  have c: "\<not> crossing atHome atHome arriveHome"
    by (simp add: crossing_def arriveHome_fields)
  have t0: "triggered s = []" by (simp add: s_def initialTracker_def)
  from T have "triggered (checkReminders atHome [arriveHome] s)
      = triggered s @ filter (fires atHome (locationStates s)) [arriveHome]" by blast
  then have a: "triggered (checkReminders atHome [arriveHome] s) = [arriveHome]"
    using f t0 by simp
  from T have "\<forall>r \<in> set [arriveHome]. \<forall>loc. location r = Some loc \<longrightarrow>
           locationStates (checkReminders atHome [arriveHome] s) (id_r r)
             = Some (isInsideOf atHome loc)" by blast
  then have b: "locationStates (checkReminders atHome [arriveHome] s) ''h'' = Some True"
    by (simp add: arriveHome_fields atHome_inside)
  from T have "triggered (checkReminders atHome [arriveHome] (checkReminders atHome [arriveHome] s))
           = triggered (checkReminders atHome [arriveHome] s)
               @ filter (crossing atHome atHome) [arriveHome]" by blast
  then have e: "triggered (checkReminders atHome [arriveHome] (checkReminders atHome [arriveHome] s))
      = [arriveHome]"
    using a c by simp
  from a b e show ?thesis unfolding s_def by (intro conjI)
qed

subsection \<open>After the start of the tracker\<close>

lemma checkReminders_frame:
  "watchId (checkReminders position reminders s) = watchId s"
  "watches (checkReminders position reminders s) = watches s"
  "pendingReads (checkReminders position reminders s) = pendingReads s"
  "alerts (checkReminders position reminders s) = alerts s"
  by (induction reminders arbitrary: s) (simp_all add: checkReminder_effect)

lemma initializeStates_frame:
  "watchId (initializeStates position reminders s) = watchId s"
  "watches (initializeStates position reminders s) = watches s"
  "pendingReads (initializeStates position reminders s) = pendingReads s"
  "alerts (initializeStates position reminders s) = alerts s"
  "triggered (initializeStates position reminders s) = triggered s"
  by (induction reminders arbitrary: s) (simp_all split: option.splits)

lemma stop_frame:
  "watchId (stopWatchingLocation s) = None"
  "set (watches (stopWatchingLocation s)) \<subseteq> set (watches s)"
  "pendingReads (stopWatchingLocation s) = pendingReads s"
  "triggered (stopWatchingLocation s) = triggered s"
  "locationStates (stopWatchingLocation s) = locationStates s"
  by (auto simp: stopWatchingLocation_def clearWatch_def split: option.splits)

lemma handleError_frame:
  "watchId (handleError error s) = None"
  "set (watches (handleError error s)) \<subseteq> set (watches s)"
  "pendingReads (handleError error s) = pendingReads s"
  "triggered (handleError error s) = triggered s"
  using stop_frame(2) [of "s\<lparr>consoleErrors := consoleErrors s @ [''Error watching location: '' @ message error]\<rparr>"]
  by (auto simp: handleError_def Let_def stop_frame)

lemma in_set_dropRead: "rq \<in> set (pendingReads (dropRead k s)) \<Longrightarrow> rq \<in> set (pendingReads s)"
  by (auto simp: dropRead_def dest: in_set_takeD in_set_dropD)

lemma dropRead_frame:
  "watchId (dropRead k s) = watchId s" "watches (dropRead k s) = watches s"
  "triggered (dropRead k s) = triggered s" "locationStates (dropRead k s) = locationStates s"
  by (simp_all add: dropRead_def)







lemma inv_stop_watches:
  assumes "tracker_inv s"
  shows "watches (stopWatchingLocation s) = []"
proof (cases "watchId s")
  case None
  then have "watches s = []" using assms by (cases "watches s") (auto simp: tracker_inv_def)
  with None show ?thesis by (simp add: stopWatchingLocation_def)
next
  case (Some w)
  then have "\<forall>(w', rq) \<in> set (watches s). w' = w" using assms by (auto simp: tracker_inv_def)
  then have "filter (\<lambda>(w', rq). w' \<noteq> w) (watches s) = []"
    by (auto simp: filter_empty_conv)
  with Some show ?thesis by (simp add: stopWatchingLocation_def clearWatch_def)
qed

lemma inv_stop:
  assumes "tracker_inv s"
  shows "tracker_inv (stopWatchingLocation s)"
  using assms inv_stop_watches [OF assms]
  by (simp add: tracker_inv_def stop_frame)

lemma inv_handleError:
  assumes "tracker_inv s"
  shows "tracker_inv (handleError error s)"
proof -
  have i: "tracker_inv (s\<lparr>consoleErrors := consoleErrors s @ [''Error watching location: '' @ message error]\<rparr>)"
    using assms by (simp add: tracker_inv_def)
  have "watches (handleError error s) = []"
    using inv_stop_watches [OF i] by (simp add: handleError_def Let_def)
  then show ?thesis using assms by (simp add: tracker_inv_def handleError_frame)
qed

lemma inv_dropRead:
  assumes "tracker_inv s"
  shows "tracker_inv (dropRead k s)"
  using assms in_set_dropRead [of _ k s]
  unfolding tracker_inv_def by (auto simp: dropRead_frame)

lemma inv_same_requests:
  assumes "tracker_inv s" and "watchId s' = watchId s" and "watches s' = watches s"
    and "pendingReads s' = pendingReads s"
  shows "tracker_inv s'"
  using assms by (simp add: tracker_inv_def)

lemma inv_runSuccess:
  assumes "tracker_inv s"
  shows "tracker_inv (runSuccess cb position s)"
  using assms
  by (cases cb) (auto intro: inv_same_requests simp: checkReminders_frame initializeStates_frame)

lemma inv_runError:
  assumes "tracker_inv s"
  shows "tracker_inv (runError cb error s)"
proof (cases cb)
  case None
  then show ?thesis using assms by simp
next
  case (Some a)
  then show ?thesis using assms by (cases a) (simp add: inv_handleError)
qed

lemma inv_deliver:
  assumes "tracker_inv s"
  shows "tracker_inv (deliver e s)"
proof (cases e)
  case (ReadSucceeds k p)
  then show ?thesis using assms by (simp add: inv_runSuccess inv_dropRead)
next
  case (ReadFails k err)
  then show ?thesis using assms by (simp add: inv_runError inv_dropRead)
next
  case (WatchSample w p)
  then show ?thesis using assms by (simp add: inv_runSuccess split: option.splits)
next
  case (WatchFails w err)
  then show ?thesis using assms by (simp add: inv_runError split: option.splits)
qed

lemma start_effect:
  assumes "tracker_inv s0"
  shows "locationStates (startWatchingLocation reminders s0) = Map.empty"
    and "triggered (startWatchingLocation reminders s0) = triggered s0"
    and "watchId (startWatchingLocation reminders s0) = Some (nextWatchId s0)"
    and "watches (startWatchingLocation reminders s0) =
           [(nextWatchId s0,
             \<lparr>onSuccess = CheckReminders reminders, onError = Some HandleError,
              options = Some \<lparr>enableHighAccuracy = True, timeout = 10000, maximumAge = 0\<rparr>\<rparr>)]"
    and "pendingReads (startWatchingLocation reminders s0) =
           pendingReads s0 @
           [\<lparr>onSuccess = InitializeStates reminders, onError = None, options = None\<rparr>]"
proof -
  define s1 where "s1 = (if watchId s0 \<noteq> None then stopWatchingLocation s0 else s0)"
  have w1: "watches s1 = []"
  proof (cases "watchId s0")
    case None
    then have "watches s0 = []" using assms by (cases "watches s0") (auto simp: tracker_inv_def)
    with None show ?thesis by (simp add: s1_def)
  next
    case (Some w)
    then show ?thesis using inv_stop_watches [OF assms] by (simp add: s1_def)
  qed
  have f1: "triggered s1 = triggered s0" "pendingReads s1 = pendingReads s0"
    "nextWatchId s1 = nextWatchId s0"
    by (auto simp: s1_def stopWatchingLocation_def clearWatch_def split: option.splits)
  have e: "startWatchingLocation reminders s0 =
      (let s2 = s1\<lparr>locationStates := Map.empty\<rparr>;
           s3 = getCurrentPosition
                 \<lparr>onSuccess = InitializeStates reminders, onError = None, options = None\<rparr> s2;
           (w, s4) = watchPosition
                 \<lparr>onSuccess = CheckReminders reminders, onError = Some HandleError,
                  options = Some \<lparr>enableHighAccuracy = True, timeout = 10000, maximumAge = 0\<rparr>\<rparr>
                 s3
       in s4\<lparr>watchId := Some w\<rparr>)"
    by (simp add: startWatchingLocation_def s1_def Let_def)
  show "locationStates (startWatchingLocation reminders s0) = Map.empty"
    and "triggered (startWatchingLocation reminders s0) = triggered s0"
    and "watchId (startWatchingLocation reminders s0) = Some (nextWatchId s0)"
    and "watches (startWatchingLocation reminders s0) =
           [(nextWatchId s0,
             \<lparr>onSuccess = CheckReminders reminders, onError = Some HandleError,
              options = Some \<lparr>enableHighAccuracy = True, timeout = 10000, maximumAge = 0\<rparr>\<rparr>)]"
    and "pendingReads (startWatchingLocation reminders s0) =
           pendingReads s0 @
           [\<lparr>onSuccess = InitializeStates reminders, onError = None, options = None\<rparr>]"
    unfolding e using w1 f1
    by (simp_all add: Let_def getCurrentPosition_def watchPosition_def)
qed

lemma inv_start:
  assumes "tracker_inv s"
  shows "tracker_inv (startWatchingLocation reminders s)"
  using assms unfolding tracker_inv_def [of "startWatchingLocation reminders s"]
  by (auto simp: start_effect [OF assms] tracker_inv_def)

lemma tracking_inv: "tracking s \<Longrightarrow> tracker_inv s"
proof (induction rule: tracking.induct)
  case tracking_initial
  show ?case by (simp add: tracker_inv_def initialTracker_def)
next
  case (tracking_start s reminders)
  then show ?case by (simp add: inv_start)
next
  case (tracking_stop s)
  then show ?case by (simp add: inv_stop)
next
  case (tracking_deliver s e)
  then show ?case by (simp add: inv_deliver)
qed









text \<open>
  The scenario of the specification: started outside the fence, the first sample inside
  it fires once, and a further sample inside does not fire again.
\<close>

lemma enter_fence_scenario:
  "triggered (run [ReadSucceeds 0 nearHome, WatchSample 1 atHome, WatchSample 1 atHome]
      (startWatchingLocation [arriveHome] initialTracker)) = [arriveHome]"
  by (simp add: startWatchingLocation_def initialTracker_def getCurrentPosition_def
      watchPosition_def Let_def arriveHome_fields nearHome_outside atHome_inside
      checkReminder_def dropRead_def onTrigger_def)

subsection \<open>Failures to obtain a position\<close>

text \<open>
  An error of the continuous observation runs \<open>handleError\<close>: the watch is stopped,
  the error is logged and an alert is shown.
\<close>

lemma watch_failure_handled:
  assumes "tracking s" and "map_of (watches s) w = Some rq"
  shows "watchId (deliver (WatchFails w error) s) = None"
    and "watches (deliver (WatchFails w error) s) = []"
    and "length (alerts (deliver (WatchFails w error) s)) = Suc (length (alerts s))"
    and "consoleErrors (deliver (WatchFails w error) s)
           = consoleErrors s @ [''Error watching location: '' @ message error]"
proof -
  have inv: "tracker_inv s" using assms(1) by (rule tracking_inv)
  have "(w, rq) \<in> set (watches s)" using assms(2) by (rule map_of_SomeD)
  then have e: "onError rq = Some HandleError" using inv unfolding tracker_inv_def by blast
  then have d: "deliver (WatchFails w error) s = handleError error s" using assms(2) by simp
  have i2: "tracker_inv (s\<lparr>consoleErrors := consoleErrors s @ [''Error watching location: '' @ message error]\<rparr>)"
    using inv by (simp add: tracker_inv_def)
  show "watchId (deliver (WatchFails w error) s) = None" unfolding d by (rule handleError_frame)
  show "watches (deliver (WatchFails w error) s) = []"
    unfolding d using inv_stop_watches [OF i2] by (simp add: handleError_def Let_def)
  show "length (alerts (deliver (WatchFails w error) s)) = Suc (length (alerts s))"
    unfolding d
    by (simp add: handleError_def Let_def stopWatchingLocation_def clearWatch_def
        split: option.splits)
  show "consoleErrors (deliver (WatchFails w error) s)
           = consoleErrors s @ [''Error watching location: '' @ message error]"
    unfolding d
    by (simp add: handleError_def Let_def stopWatchingLocation_def clearWatch_def
        split: option.splits)
qed

text \<open>
  Claim C8 says that every failure to obtain a position, that of the initial one-shot
  read included, surfaces as an error and stops the watch, and that the one-shot read
  waits a bounded time. The source passes neither an error callback nor options to
  \<open>getCurrentPosition\<close>. So, in every state the tracker can reach, the failure of a
  pending one-shot read shows no alert, logs nothing and leaves \<open>watchId\<close> and the
  active watch as they were, and the request has no options: no timeout bounds it.
\<close>

theorem one_shot_failure_ignored:
  assumes "tracking s" and "k < length (pendingReads s)"
  shows "alerts (deliver (ReadFails k error) s) = alerts s
     \<and> consoleErrors (deliver (ReadFails k error) s) = consoleErrors s
     \<and> watchId (deliver (ReadFails k error) s) = watchId s
     \<and> watches (deliver (ReadFails k error) s) = watches s
     \<and> options (pendingReads s ! k) = None"
proof -
  have "pendingReads s ! k \<in> set (pendingReads s)" using assms(2) by simp
  then have e: "onError (pendingReads s ! k) = None" and o: "options (pendingReads s ! k) = None"
    using tracking_inv [OF assms(1)] unfolding tracker_inv_def by blast+
  from e have "deliver (ReadFails k error) s = dropRead k s" using assms(2) by simp
  then show ?thesis using o by (simp add: dropRead_def)
qed

theorem one_shot_failure_ignored_witness:
  "alerts (deliver (ReadFails 0 permissionDenied)
      (startWatchingLocation [arriveHome] initialTracker)) = []
   \<and> consoleErrors (deliver (ReadFails 0 permissionDenied)
      (startWatchingLocation [arriveHome] initialTracker)) = []
   \<and> watchId (deliver (ReadFails 0 permissionDenied)
      (startWatchingLocation [arriveHome] initialTracker)) = Some 1
   \<and> map fst (watches (deliver (ReadFails 0 permissionDenied)
      (startWatchingLocation [arriveHome] initialTracker))) = [1]"
proof -
  define s1 where "s1 = startWatchingLocation [arriveHome] initialTracker"
  have h1: "tracking s1" unfolding s1_def by (intro tracking_start tracking_initial)
  have f: "alerts s1 = []" "consoleErrors s1 = []" "watchId s1 = Some 1"
    "map fst (watches s1) = [1]" "length (pendingReads s1) = 1"
    by (simp_all add: s1_def startWatchingLocation_def initialTracker_def getCurrentPosition_def
        watchPosition_def Let_def)
  have h2: "0 < length (pendingReads s1)" using f(5) by simp
  from one_shot_failure_ignored [OF h1 h2, of permissionDenied] f
  show ?thesis unfolding s1_def by simp
qed


end
